theory Spec2Isabelle
  imports Main "HOL-Library.Word"
begin

unbundle bit_operations_syntax

section \<open>Machine types of \<^verbatim>\<open>virt-viewer-util.c\<close>\<close>

text \<open>
  \<^verbatim>\<open>gint\<close> and \<^verbatim>\<open>guint\<close> are 32 bits wide, \<^verbatim>\<open>guint64\<close> is 64 bits wide.
  A \<^verbatim>\<open>gint\<close> is read through \<open>sint\<close>; arithmetic wraps around.
\<close>

type_synonym gint = "32 word"
type_synonym guint = "32 word"
type_synonym guint64 = "64 word"

section \<open>Version comparison\<close>

subsection \<open>The GLib string helpers the comparator calls\<close>

text \<open>
  \<^verbatim>\<open>g_strsplit (s, ".", -1)\<close>: the pieces between the delimiters, in order; a trailing
  delimiter yields a trailing empty piece, and the empty string yields the empty vector.
  The delimiter of every call in this file is one character long.
\<close>

fun split_pieces :: "char \<Rightarrow> string \<Rightarrow> string list" where
  "split_pieces d [] = [[]]"
| "split_pieces d (c # cs) =
     (if c = d then [] # split_pieces d cs
      else (case split_pieces d cs of
              [] \<Rightarrow> [[c]]
            | t # ts \<Rightarrow> (c # t) # ts))"

definition g_strsplit :: "string \<Rightarrow> char \<Rightarrow> string list" where
  "g_strsplit s d = (if s = [] then [] else split_pieces d s)"

text \<open>The character macros of \<^verbatim>\<open>gstrfuncs.c\<close>.\<close>

definition ISSPACE :: "char \<Rightarrow> bool" where
  "ISSPACE c = (c = CHR '' '' \<or> c = CHR 0x0C \<or> c = CHR 0x0A \<or>
                c = CHR 0x0D \<or> c = CHR 0x09 \<or> c = CHR 0x0B)"

definition ISDIGIT :: "char \<Rightarrow> bool" where
  "ISDIGIT c = (of_char c \<ge> (48::nat) \<and> of_char c \<le> (57::nat))"

definition ISUPPER :: "char \<Rightarrow> bool" where
  "ISUPPER c = (of_char c \<ge> (65::nat) \<and> of_char c \<le> (90::nat))"

definition TOLOWER :: "char \<Rightarrow> char" where
  "TOLOWER c = (if ISUPPER c then char_of (of_char c + (32::nat)) else c)"

text \<open>
  The digit loop of \<^verbatim>\<open>g_ascii_strtoull\<close> in base 10: it consumes digits while there are
  any, and once the value would pass \<^verbatim>\<open>G_MAXUINT64\<close> it only records the overflow.
  A letter has a digit value of at least 10 and ends the loop like any other character.
\<close>

definition cutoff :: guint64 where
  "cutoff = (- 1) div 10"

definition cutlim :: guint64 where
  "cutlim = (- 1) mod 10"

fun digits_loop :: "guint64 \<Rightarrow> bool \<Rightarrow> string \<Rightarrow> guint64 \<times> bool \<times> string" where
  "digits_loop ui64 overflow [] = (ui64, overflow, [])"
| "digits_loop ui64 overflow (c # cs) =
     (if ISDIGIT c then
        (let d = (word_of_nat (of_char c - (48::nat)) :: guint64) in
         if ui64 > cutoff \<or> (ui64 = cutoff \<and> d > cutlim)
         then digits_loop ui64 True cs
         else digits_loop (ui64 * 10 + d) overflow cs)
      else (ui64, overflow, c # cs))"

text \<open>
  \<^verbatim>\<open>g_ascii_strtoull (nptr, &end, 10)\<close>: the value and the unparsed rest (what
  \<^verbatim>\<open>end\<close> points to). Leading white space and one sign are skipped; without a digit
  the value is 0 and the rest is the whole input; on overflow the value is
  \<^verbatim>\<open>G_MAXUINT64\<close>; a minus sign negates the value modulo \<open>2^64\<close>.
\<close>

definition g_ascii_strtoull :: "string \<Rightarrow> guint64 \<times> string" where
  "g_ascii_strtoull nptr =
     (let s = dropWhile ISSPACE nptr in
      if s = [] then (0, nptr)
      else
        (let negative = (hd s = CHR ''-'');
             s' = (if hd s = CHR ''-'' \<or> hd s = CHR ''+'' then tl s else s);
             (ui64, overflow, rest) = digits_loop 0 False s'
         in if length rest = length s' then (0, nptr)
            else
              (let result = (if overflow then - 1 else ui64)
               in (if negative then - result else result, rest))))"

subsection \<open>\<^verbatim>\<open>virt_viewer_compare_version\<close>\<close>

datatype log_message =
  Critical string
  | Warning string

text \<open>
  The loop over the components both vectors have. The difference of the two 64-bit values
  is stored in the \<^verbatim>\<open>gint\<close> \<^verbatim>\<open>retval\<close>, which keeps its low 32 bits. A non-zero
  \<^verbatim>\<open>retval\<close> leaves the loop before the suffixes are looked at; a suffix leaves it with
  the warning and \<^verbatim>\<open>retval\<close> 0. After the loop the longer vector wins.
\<close>

fun compare_components :: "string list \<Rightarrow> string list \<Rightarrow> gint \<times> log_message list" where
  "compare_components (c1 # v1) (c2 # v2) =
     (let (m1, e1) = g_ascii_strtoull c1;
          (m2, e2) = g_ascii_strtoull c2;
          retval = (ucast (m1 - m2) :: gint)
      in if retval \<noteq> 0 then (retval, [])
         else if e1 \<noteq> [] \<or> e2 \<noteq> []
              then (retval, [Warning ''the version string contains suffix''])
              else compare_components v1 v2)"
| "compare_components (c1 # v1) [] = (1, [])"
| "compare_components [] (c2 # v2) = (- 1, [])"
| "compare_components [] [] = (0, [])"

text \<open>A \<^verbatim>\<open>NULL\<close> argument is \<open>None\<close>; each fails its \<^verbatim>\<open>g_return_val_if_fail\<close>.\<close>

definition virt_viewer_compare_version ::
  "string option \<Rightarrow> string option \<Rightarrow> gint \<times> log_message list" where
  "virt_viewer_compare_version s1 s2 =
     (case s1 of
        None \<Rightarrow> (0, [Critical ''s1 != NULL''])
      | Some a \<Rightarrow>
          (case s2 of
             None \<Rightarrow> (0, [Critical ''s2 != NULL''])
           | Some b \<Rightarrow> compare_components (g_strsplit a CHR ''.'') (g_strsplit b CHR ''.'')))"

section \<open>Monitor layout\<close>

record GdkRectangle =
  x :: gint
  y :: gint
  width :: gint
  height :: gint

datatype error = Assertion_failed

subsection \<open>\<^verbatim>\<open>displays_cmp\<close> and the sort it is handed to\<close>

text \<open>
  \<^verbatim>\<open>displays_cmp\<close> applied to the indices \<open>i\<close> and \<open>j\<close> (what \<^verbatim>\<open>p1\<close> and
  \<^verbatim>\<open>p2\<close> point to). Each difference is computed in 32 bits, stored in the
  \<^verbatim>\<open>guint\<close> \<^verbatim>\<open>diff\<close> and returned as an \<^verbatim>\<open>int\<close>, so it wraps around.
\<close>

definition displays_cmp :: "GdkRectangle list \<Rightarrow> nat \<Rightarrow> nat \<Rightarrow> gint" where
  "displays_cmp displays i j =
     (let m1 = displays ! i;
          m2 = displays ! j;
          diff = x m1 - x m2;
          diff = (if diff = 0 then y m1 - y m2 else diff);
          diff = (if diff = 0 then word_of_nat i - word_of_nat j else diff)
      in diff)"

text \<open>
  \<^verbatim>\<open>g_qsort_with_data\<close> is GLib's merge sort: the first \<open>n div 2\<close> elements and the
  rest are sorted separately and merged, the left element going first whenever the
  comparison function returns a value that is not positive. \<^verbatim>\<open>displays_cmp\<close> never
  returns 0 for two different indices, so where it is a total order every sorting algorithm
  returns the same list.
\<close>

fun merge_with_data :: "('a \<Rightarrow> 'a \<Rightarrow> gint) \<Rightarrow> 'a list \<Rightarrow> 'a list \<Rightarrow> 'a list" where
  "merge_with_data cmp [] b2 = b2"
| "merge_with_data cmp (a # b1) [] = a # b1"
| "merge_with_data cmp (a # b1) (b # b2) =
     (if sint (cmp a b) \<le> 0 then a # merge_with_data cmp b1 (b # b2)
      else b # merge_with_data cmp (a # b1) b2)"

function g_qsort_with_data :: "'a list \<Rightarrow> ('a \<Rightarrow> 'a \<Rightarrow> gint) \<Rightarrow> 'a list" where
  "g_qsort_with_data b cmp =
     (if length b \<le> 1 then b
      else merge_with_data cmp
             (g_qsort_with_data (take (length b div 2) b) cmp)
             (g_qsort_with_data (drop (length b div 2) b) cmp))"
  by pat_completeness auto
termination
  by (relation "measure (\<lambda>(b, cmp). length b)") auto

declare g_qsort_with_data.simps [simp del]

subsection \<open>\<^verbatim>\<open>virt_viewer_align_monitors_linear\<close>\<close>

text \<open>
  The second loop: the rectangles are visited in sorted order, each is moved to the running
  \<open>x\<close> with \<open>y = 0\<close>, and its width is added to \<open>x\<close>. A failed \<^verbatim>\<open>g_assert\<close>
  aborts the program.
\<close>

fun adjust_positions ::
  "nat list \<Rightarrow> gint \<Rightarrow> GdkRectangle list \<Rightarrow> error + GdkRectangle list" where
  "adjust_positions [] xpos displays = Inr displays"
| "adjust_positions (n # sorted_displays) xpos displays =
     (if \<not> n < length displays then Inl Assertion_failed
      else
        (let rect = displays ! n
         in adjust_positions sorted_displays (xpos + width rect)
              (displays[n := rect\<lparr>x := xpos, y := 0\<rparr>])))"

text \<open>
  The array of \<^verbatim>\<open>ndisplays\<close> rectangles is a list, \<^verbatim>\<open>ndisplays\<close> its length, and a
  \<^verbatim>\<open>NULL\<close> array is \<open>None\<close>. The result is the array after the call.
\<close>

definition virt_viewer_align_monitors_linear ::
  "GdkRectangle list option \<Rightarrow> error + GdkRectangle list option" where
  "virt_viewer_align_monitors_linear displays_ptr =
     (case displays_ptr of
        None \<Rightarrow> Inr None
      | Some displays \<Rightarrow>
          if length displays = 0 then Inr (Some displays)
          else
            (let sorted_displays =
                   g_qsort_with_data [0..<length displays] (displays_cmp displays)
             in case adjust_positions sorted_displays 0 displays of
                  Inl e \<Rightarrow> Inl e
                | Inr displays' \<Rightarrow> Inr (Some displays')))"

subsection \<open>\<^verbatim>\<open>virt_viewer_shift_monitors_to_origin\<close>\<close>

definition G_MAXINT :: gint where
  "G_MAXINT = 2147483647"

definition MIN_gint :: "gint \<Rightarrow> gint \<Rightarrow> gint" where
  "MIN_gint a b = (if a <s b then a else b)"

definition nondegenerate :: "GdkRectangle \<Rightarrow> bool" where
  "nondegenerate display = (0 <s width display \<and> 0 <s height display)"

text \<open>The first loop: the minima over the rectangles of positive width and height.\<close>

fun find_min :: "GdkRectangle list \<Rightarrow> gint \<Rightarrow> gint \<Rightarrow> gint \<times> gint" where
  "find_min [] xmin ymin = (xmin, ymin)"
| "find_min (display # displays) xmin ymin =
     (if nondegenerate display
      then find_min displays (MIN_gint xmin (x display)) (MIN_gint ymin (y display))
      else find_min displays xmin ymin)"

text \<open>The second loop: every such rectangle is moved by the minima.\<close>

definition shift_by :: "gint \<Rightarrow> gint \<Rightarrow> GdkRectangle \<Rightarrow> GdkRectangle" where
  "shift_by xmin ymin display =
     (if nondegenerate display
      then display\<lparr>x := x display - xmin, y := y display - ymin\<rparr>
      else display)"

definition virt_viewer_shift_monitors_to_origin :: "GdkRectangle list \<Rightarrow> GdkRectangle list" where
  "virt_viewer_shift_monitors_to_origin displays =
     (if \<not> 0 < length displays then displays
      else
        (let (xmin, ymin) = find_min displays G_MAXINT G_MAXINT
         in if \<not> (xmin <s G_MAXINT \<and> ymin <s G_MAXINT) then displays
            else if 0 <s xmin \<or> 0 <s ymin then map (shift_by xmin ymin) displays
            else displays))"

section \<open>Connection strings\<close>

text \<open>
  \<^verbatim>\<open>g_ascii_strcasecmp\<close>: the difference of the first two bytes that differ after
  \<^verbatim>\<open>TOLOWER\<close>, the end of a string counting as byte 0.
\<close>

fun g_ascii_strcasecmp :: "string \<Rightarrow> string \<Rightarrow> int" where
  "g_ascii_strcasecmp (a # s1) (b # s2) =
     (let c1 = (of_char (TOLOWER a) :: int);
          c2 = (of_char (TOLOWER b) :: int)
      in if c1 \<noteq> c2 then c1 - c2 else g_ascii_strcasecmp s1 s2)"
| "g_ascii_strcasecmp [] [] = 0"
| "g_ascii_strcasecmp [] (b # s2) = - of_char b"
| "g_ascii_strcasecmp (a # s1) [] = of_char a"

text \<open>The fields of libxml2's \<^verbatim>\<open>xmlURI\<close> that the function reads; \<open>None\<close> is \<^verbatim>\<open>NULL\<close>.\<close>

record xmlURI =
  uri_scheme :: "string option"
  uri_server :: "string option"
  uri_user :: "string option"
  uri_port :: gint

text \<open>
  The output parameters. For each, \<open>None\<close> says the caller passed \<^verbatim>\<open>NULL\<close>, and
  \<open>Some v\<close> that the caller's variable holds \<open>v\<close> (for a \<^verbatim>\<open>char *\<close> variable, \<open>v\<close> is
  \<open>None\<close> for \<^verbatim>\<open>NULL\<close> or the string).
\<close>

record extract_host_out =
  scheme :: "string option option"
  host :: "string option option"
  transport :: "string option option"
  user :: "string option option"
  port :: "gint option"

text \<open>Lines 112 to 114: the string that is handed to the parser.\<close>

definition default_uristr :: "string option \<Rightarrow> string" where
  "default_uristr uristr =
     (case uristr of
        None \<Rightarrow> ''xen:///''
      | Some s \<Rightarrow> if g_ascii_strcasecmp s ''xen'' = 0 then ''xen:///'' else s)"

text \<open>\<^verbatim>\<open>strchr (s, c)\<close>: the suffix of \<open>s\<close> that starts at the first \<open>c\<close>, if there is one.\<close>

definition strchr :: "string \<Rightarrow> char \<Rightarrow> string option" where
  "strchr s c = (case dropWhile (\<lambda>a. a \<noteq> c) s of [] \<Rightarrow> None | r # rs \<Rightarrow> Some (r # rs))"

definition extract_host_field :: "string option \<Rightarrow> string" where
  "extract_host_field server =
     (case server of
        None \<Rightarrow> ''localhost''
      | Some [] \<Rightarrow> []
      | Some (c # cs) \<Rightarrow>
          if c = CHR ''[''
          then (case strchr cs CHR '']'' of
                  None \<Rightarrow> cs
                | Some tmp \<Rightarrow> take (length cs - length tmp) cs)
          else c # cs)"

text \<open>
  \<^verbatim>\<open>virt_viewer_util_extract_host\<close>. libxml2's \<^verbatim>\<open>xmlParseURI\<close> is a parameter
  (\<open>None\<close> when it returns \<^verbatim>\<open>NULL\<close>). The result is the returned \<^verbatim>\<open>int\<close> and the
  output parameters after the call; \<^verbatim>\<open>*scheme\<close> is written only when the URI has a scheme.
\<close>

definition virt_viewer_util_extract_host ::
  "(string \<Rightarrow> xmlURI option) \<Rightarrow> string option \<Rightarrow> extract_host_out \<Rightarrow> int \<times> extract_host_out" where
  "virt_viewer_util_extract_host xmlParseURI uristr out =
     (case xmlParseURI (default_uristr uristr) of
        None \<Rightarrow> (1, out)
      | Some uri \<Rightarrow>
          (let out1 = (if host out = None then out
                       else out\<lparr>host := Some (Some (extract_host_field (uri_server uri)))\<rparr>);
               out2 = (if user out1 = None then out1
                       else out1\<lparr>user := Some (uri_user uri)\<rparr>);
               out3 = (if port out2 = None then out2
                       else out2\<lparr>port := Some (uri_port uri)\<rparr>);
               offset = (case uri_scheme uri of None \<Rightarrow> None | Some s \<Rightarrow> strchr s CHR ''+'');
               out4 = (if transport out3 = None then out3
                       else out3\<lparr>transport := Some (map_option tl offset)\<rparr>);
               out5 = (case uri_scheme uri of
                         None \<Rightarrow> out4
                       | Some s \<Rightarrow>
                           if scheme out4 = None then out4
                           else (case offset of
                                   None \<Rightarrow> out4\<lparr>scheme := Some (Some s)\<rparr>
                                 | Some tmp \<Rightarrow>
                                     out4\<lparr>scheme := Some (Some (take (length s - length tmp) s))\<rparr>))
           in (0, out5)))"

section \<open>Signal connections that end with either object\<close>

subsection \<open>The GObject state the functions act on\<close>

text \<open>
  A pointer is an address, \<^verbatim>\<open>NULL\<close> is 0. The two functions of this file that are
  registered as \<^verbatim>\<open>GWeakNotify\<close> are the constructors of \<open>GWeakNotify\<close>; the only
  invalidation notifier that is registered is \<^verbatim>\<open>closure_invalidated_cb\<close>.
\<close>

type_synonym gpointer = nat
type_synonym gulong = nat
type_synonym GConnectFlags = "32 word"

datatype GWeakNotify = Instance_destroyed_cb | Observer_destroyed_cb

record WeakHandlerCtx =
  ctx_instance :: gpointer
  ctx_observer :: gpointer
  ctx_closure :: gpointer
  ctx_handler_id :: gulong

record GCClosure =
  cc_callback :: gpointer
  cc_data :: gpointer
  cc_swap :: bool

record Handler =
  h_instance :: gpointer
  h_id :: gulong
  h_signal :: string
  h_closure :: gpointer
  h_after :: bool

text \<open>The library calls and failed checks, in the order they happen.\<close>

datatype call =
  Slice_new gpointer
  | Slice_free gpointer
  | Object_weak_ref gpointer GWeakNotify gpointer
  | Object_weak_unref gpointer GWeakNotify gpointer
  | Closure_add_invalidate_notifier gpointer gpointer
  | Closure_remove_invalidate_notifier gpointer gpointer
  | Cclosure_new_object gpointer gpointer bool
  | Signal_connect_closure gpointer string gpointer bool
  | Signal_handler_disconnect gpointer gulong
  | Return_if_fail string

text \<open>
  \<open>objects\<close> are the live \<^verbatim>\<open>GObject\<close> instances, \<open>signal_valid\<close> says which
  detailed signal names an instance accepts, \<open>slices\<close> are the allocated
  \<^verbatim>\<open>WeakHandlerCtx\<close> blocks, \<open>weak_refs\<close> the weak references as (object, function, data),
  \<open>notifiers\<close> the invalidation notifiers as (closure, data).
\<close>

record glib =
  objects :: "gpointer set"
  signal_valid :: "gpointer \<Rightarrow> string \<Rightarrow> bool"
  slices :: "gpointer \<rightharpoonup> WeakHandlerCtx"
  closures :: "gpointer \<rightharpoonup> GCClosure"
  handlers :: "Handler list"
  weak_refs :: "(gpointer \<times> GWeakNotify \<times> gpointer) list"
  notifiers :: "(gpointer \<times> gpointer) list"
  next_addr :: gpointer
  next_handler :: gulong
  trace :: "call list"

definition called :: "call \<Rightarrow> glib \<Rightarrow> glib" where
  "called c st = st\<lparr>trace := trace st @ [c]\<rparr>"

subsection \<open>The GLib calls\<close>

definition g_object_weak_ref :: "gpointer \<Rightarrow> GWeakNotify \<Rightarrow> gpointer \<Rightarrow> glib \<Rightarrow> glib" where
  "g_object_weak_ref object notify data st =
     called (Object_weak_ref object notify data)
       (st\<lparr>weak_refs := weak_refs st @ [(object, notify, data)]\<rparr>)"

definition g_object_weak_unref :: "gpointer \<Rightarrow> GWeakNotify \<Rightarrow> gpointer \<Rightarrow> glib \<Rightarrow> glib" where
  "g_object_weak_unref object notify data st =
     called (Object_weak_unref object notify data)
       (st\<lparr>weak_refs := remove1 (object, notify, data) (weak_refs st)\<rparr>)"

definition g_closure_add_invalidate_notifier :: "gpointer \<Rightarrow> gpointer \<Rightarrow> glib \<Rightarrow> glib" where
  "g_closure_add_invalidate_notifier cl data st =
     called (Closure_add_invalidate_notifier cl data)
       (st\<lparr>notifiers := notifiers st @ [(cl, data)]\<rparr>)"

definition g_closure_remove_invalidate_notifier :: "gpointer \<Rightarrow> gpointer \<Rightarrow> glib \<Rightarrow> glib" where
  "g_closure_remove_invalidate_notifier cl data st =
     called (Closure_remove_invalidate_notifier cl data)
       (st\<lparr>notifiers := remove1 (cl, data) (notifiers st)\<rparr>)"

text \<open>
  \<^verbatim>\<open>g_cclosure_new_object\<close> and \<^verbatim>\<open>g_cclosure_new_object_swap\<close> allocate a closure
  for the callback with the object as its data.
\<close>

definition new_cclosure :: "bool \<Rightarrow> gpointer \<Rightarrow> gpointer \<Rightarrow> glib \<Rightarrow> gpointer \<times> glib" where
  "new_cclosure swap callback_func object st =
     (let cl = next_addr st
      in (cl, called (Cclosure_new_object callback_func object swap)
                (st\<lparr>closures := (closures st)(cl \<mapsto>
                        \<lparr>cc_callback = callback_func, cc_data = object, cc_swap = swap\<rparr>),
                     next_addr := Suc cl\<rparr>)))"

definition g_cclosure_new_object :: "gpointer \<Rightarrow> gpointer \<Rightarrow> glib \<Rightarrow> gpointer \<times> glib" where
  "g_cclosure_new_object = new_cclosure False"

definition g_cclosure_new_object_swap :: "gpointer \<Rightarrow> gpointer \<Rightarrow> glib \<Rightarrow> gpointer \<times> glib" where
  "g_cclosure_new_object_swap = new_cclosure True"

text \<open>
  \<^verbatim>\<open>g_signal_connect_closure\<close> returns the next handler id, or 0 without a connection
  when the instance has no such signal.
\<close>

definition g_signal_connect_closure ::
  "gpointer \<Rightarrow> string \<Rightarrow> gpointer \<Rightarrow> bool \<Rightarrow> glib \<Rightarrow> gulong \<times> glib" where
  "g_signal_connect_closure inst detailed_signal cl after st =
     (let st1 = called (Signal_connect_closure inst detailed_signal cl after) st
      in if \<not> signal_valid st1 inst detailed_signal then (0, st1)
         else
           (let hid = next_handler st1
            in (hid, st1\<lparr>handlers := handlers st1 @
                            [\<lparr>h_instance = inst, h_id = hid, h_signal = detailed_signal,
                              h_closure = cl, h_after = after\<rparr>],
                          next_handler := Suc hid\<rparr>)))"

subsection \<open>\<^verbatim>\<open>WeakHandlerCtx\<close> and the three callbacks\<close>

definition whc_new :: "gpointer \<Rightarrow> gpointer \<Rightarrow> glib \<Rightarrow> gpointer \<times> glib" where
  "whc_new inst obs st =
     (let ctx = next_addr st
      in (ctx, called (Slice_new ctx)
                 (st\<lparr>slices := (slices st)(ctx \<mapsto>
                         \<lparr>ctx_instance = inst, ctx_observer = obs,
                           ctx_closure = 0, ctx_handler_id = 0\<rparr>),
                      next_addr := Suc ctx\<rparr>)))"

text \<open>
  Freeing a block that is not allocated, or reading one, is undefined in C. The callbacks
  return \<open>None\<close> when that happens.
\<close>

definition whc_free :: "gpointer \<Rightarrow> glib \<Rightarrow> glib option" where
  "whc_free ctx st =
     (if slices st ctx = None then None
      else Some (called (Slice_free ctx) (st\<lparr>slices := (slices st)(ctx := None)\<rparr>)))"

definition closure_invalidated_cb :: "gpointer \<Rightarrow> glib \<Rightarrow> glib option" where
  "closure_invalidated_cb ctxp st =
     (case slices st ctxp of
        None \<Rightarrow> None
      | Some ctx \<Rightarrow>
          (let st1 = g_object_weak_unref (ctx_instance ctx) Instance_destroyed_cb ctxp st;
               st2 = g_object_weak_unref (ctx_observer ctx) Observer_destroyed_cb ctxp st1
           in whc_free ctxp st2))"

text \<open>
  Invalidating a closure takes its notifiers off and calls them, the one added last first.
\<close>

fun invoke_inotifiers :: "gpointer list \<Rightarrow> glib \<Rightarrow> glib option" where
  "invoke_inotifiers [] st = Some st"
| "invoke_inotifiers (data # rest) st =
     (case closure_invalidated_cb data st of
        None \<Rightarrow> None
      | Some st' \<Rightarrow> invoke_inotifiers rest st')"

definition g_closure_invalidate :: "gpointer \<Rightarrow> glib \<Rightarrow> glib option" where
  "g_closure_invalidate cl st =
     invoke_inotifiers (rev (map snd (filter (\<lambda>n. fst n = cl) (notifiers st))))
       (st\<lparr>notifiers := filter (\<lambda>n. fst n \<noteq> cl) (notifiers st)\<rparr>)"

text \<open>
  \<^verbatim>\<open>g_signal_handler_disconnect\<close> removes the handler and drops its reference to the
  closure, the only one there is, so the closure is invalidated and freed. An id the
  instance does not have only gives a warning.
\<close>

definition g_signal_handler_disconnect :: "gpointer \<Rightarrow> gulong \<Rightarrow> glib \<Rightarrow> glib option" where
  "g_signal_handler_disconnect inst hid st =
     (let st1 = called (Signal_handler_disconnect inst hid) st
      in case find (\<lambda>h. h_instance h = inst \<and> h_id h = hid) (handlers st1) of
           None \<Rightarrow> Some st1
         | Some h \<Rightarrow>
             g_closure_invalidate (h_closure h)
               (st1\<lparr>handlers := remove1 h (handlers st1),
                    closures := (closures st1)(h_closure h := None)\<rparr>))"

definition instance_destroyed_cb :: "gpointer \<Rightarrow> glib \<Rightarrow> glib option" where
  "instance_destroyed_cb ctxp st =
     (case slices st ctxp of
        None \<Rightarrow> None
      | Some ctx \<Rightarrow>
          (let st1 = g_object_weak_unref (ctx_observer ctx) Observer_destroyed_cb ctxp st;
               st2 = g_closure_remove_invalidate_notifier (ctx_closure ctx) ctxp st1
           in whc_free ctxp st2))"

definition observer_destroyed_cb :: "gpointer \<Rightarrow> glib \<Rightarrow> glib option" where
  "observer_destroyed_cb ctxp st =
     (case slices st ctxp of
        None \<Rightarrow> None
      | Some ctx \<Rightarrow>
          (let st1 = g_closure_remove_invalidate_notifier (ctx_closure ctx) ctxp st
           in case g_signal_handler_disconnect (ctx_instance ctx) (ctx_handler_id ctx) st1 of
                None \<Rightarrow> None
              | Some st2 \<Rightarrow>
                  (let st3 = g_object_weak_unref (ctx_instance ctx) Instance_destroyed_cb ctxp st2
                   in whc_free ctxp st3)))"

subsection \<open>\<^verbatim>\<open>virt_viewer_signal_connect_object\<close>\<close>

definition G_CONNECT_AFTER :: GConnectFlags where
  "G_CONNECT_AFTER = 1"

definition G_CONNECT_SWAPPED :: GConnectFlags where
  "G_CONNECT_SWAPPED = 2"

definition set_ctx :: "gpointer \<Rightarrow> (WeakHandlerCtx \<Rightarrow> WeakHandlerCtx) \<Rightarrow> glib \<Rightarrow> glib" where
  "set_ctx ctx f st = st\<lparr>slices := (slices st)(ctx := map_option f (slices st ctx))\<rparr>"

text \<open>
  The context is allocated first, then the five checks run; each failed check logs and
  returns 0 at once. \<open>detailed_signal\<close> is \<open>None\<close> for \<^verbatim>\<open>NULL\<close>.
\<close>

definition virt_viewer_signal_connect_object ::
  "gpointer \<Rightarrow> string option \<Rightarrow> gpointer \<Rightarrow> gpointer \<Rightarrow> GConnectFlags \<Rightarrow> glib \<Rightarrow> gulong \<times> glib" where
  "virt_viewer_signal_connect_object inst detailed_signal c_handler gobject connect_flags st =
     (let (ctx, st0) = whc_new inst gobject st
      in if inst \<notin> objects st0
           then (0, called (Return_if_fail ''G_TYPE_CHECK_INSTANCE (instance)'') st0)
         else if detailed_signal = None
           then (0, called (Return_if_fail ''detailed_signal != NULL'') st0)
         else if c_handler = 0
           then (0, called (Return_if_fail ''c_handler != NULL'') st0)
         else if gobject \<notin> objects st0
           then (0, called (Return_if_fail ''G_IS_OBJECT (gobject)'') st0)
         else if connect_flags AND NOT (G_CONNECT_AFTER OR G_CONNECT_SWAPPED) \<noteq> 0
           then (0, called (Return_if_fail ''connect_flags'') st0)
         else
           (let (cl, st1) = (if connect_flags AND G_CONNECT_SWAPPED \<noteq> 0
                             then g_cclosure_new_object_swap c_handler gobject st0
                             else g_cclosure_new_object c_handler gobject st0);
                st2 = set_ctx ctx (\<lambda>c. c\<lparr>ctx_closure := cl\<rparr>) st1;
                (hid, st3) = g_signal_connect_closure inst (the detailed_signal) cl
                               (connect_flags AND G_CONNECT_AFTER \<noteq> 0) st2;
                st4 = set_ctx ctx (\<lambda>c. c\<lparr>ctx_handler_id := hid\<rparr>) st3;
                st5 = g_object_weak_ref inst Instance_destroyed_cb ctx st4;
                st6 = g_object_weak_ref gobject Observer_destroyed_cb ctx st5;
                st7 = g_closure_add_invalidate_notifier cl ctx st6
            in (hid, st7)))"

subsection \<open>Delivery of a notification\<close>

datatype watch =
  Weak_watch gpointer GWeakNotify gpointer
  | Invalidate_watch gpointer gpointer

fun watch_data :: "watch \<Rightarrow> gpointer" where
  "watch_data (Weak_watch object notify data) = data"
| "watch_data (Invalidate_watch cl data) = data"

fun installed :: "watch \<Rightarrow> glib \<Rightarrow> bool" where
  "installed (Weak_watch object notify data) st = ((object, notify, data) \<in> set (weak_refs st))"
| "installed (Invalidate_watch cl data) st = ((cl, data) \<in> set (notifiers st))"

text \<open>
  GLib delivers a notification by taking the watch off its list and calling the function
  with the data. Only an installed watch can be delivered.
\<close>

fun fire :: "watch \<Rightarrow> glib \<Rightarrow> glib option" where
  "fire (Weak_watch object Instance_destroyed_cb data) st =
     instance_destroyed_cb data (st\<lparr>weak_refs := remove1 (object, Instance_destroyed_cb, data) (weak_refs st)\<rparr>)"
| "fire (Weak_watch object Observer_destroyed_cb data) st =
     observer_destroyed_cb data (st\<lparr>weak_refs := remove1 (object, Observer_destroyed_cb, data) (weak_refs st)\<rparr>)"
| "fire (Invalidate_watch cl data) st =
     closure_invalidated_cb data (st\<lparr>notifiers := remove1 (cl, data) (notifiers st)\<rparr>)"

text \<open>
  A registration is armed when its context is allocated, its two weak references and its
  notifier are the only watches that carry the context, no other notifier sits on its
  closure, and the handler with its id on its instance, if there is one, holds its closure.
\<close>

definition armed :: "gpointer \<Rightarrow> glib \<Rightarrow> bool" where
  "armed ctxp st =
     (case slices st ctxp of
        None \<Rightarrow> False
      | Some ctx \<Rightarrow>
          filter (\<lambda>w. snd (snd w) = ctxp) (weak_refs st) =
            [(ctx_instance ctx, Instance_destroyed_cb, ctxp),
             (ctx_observer ctx, Observer_destroyed_cb, ctxp)] \<and>
          filter (\<lambda>n. snd n = ctxp \<or> fst n = ctx_closure ctx) (notifiers st) =
            [(ctx_closure ctx, ctxp)] \<and>
          list_all (\<lambda>h. h_instance h = ctx_instance ctx \<and> h_id h = ctx_handler_id ctx
                         \<longrightarrow> h_closure h = ctx_closure ctx) (handlers st))"

definition watches_of :: "gpointer \<Rightarrow> glib \<Rightarrow> watch list" where
  "watches_of ctxp st =
     (case slices st ctxp of
        None \<Rightarrow> []
      | Some ctx \<Rightarrow>
          [Weak_watch (ctx_instance ctx) Instance_destroyed_cb ctxp,
           Weak_watch (ctx_observer ctx) Observer_destroyed_cb ctxp,
           Invalidate_watch (ctx_closure ctx) ctxp])"

text \<open>A state to start from: two objects, one of them with a signal, nothing connected.\<close>

definition initial_glib :: glib where
  "initial_glib =
     \<lparr>objects = {1, 2}, signal_valid = (\<lambda>inst name. inst = 1 \<and> name = ''notify''),
      slices = Map.empty, closures = Map.empty, handlers = [], weak_refs = [],
      notifiers = [], next_addr = 16, next_handler = 1, trace = []\<rparr>"

section \<open>Vocabulary of the properties\<close>

subsection \<open>Version strings\<close>







subsection \<open>Monitors\<close>

text \<open>
  The minimum \<open>x\<close> and the minimum \<open>y\<close> over the rectangles of positive width and
  height, as integers.
\<close>

definition min_x :: "GdkRectangle list \<Rightarrow> int" where
  "min_x displays = Min (set (map (\<lambda>d. sint (x d)) (filter nondegenerate displays)))"

definition min_y :: "GdkRectangle list \<Rightarrow> int" where
  "min_y displays = Min (set (map (\<lambda>d. sint (y d)) (filter nondegenerate displays)))"

text \<open>The first loop of the shift for one coordinate \<open>f\<close>.\<close>

fun running_min :: "(GdkRectangle \<Rightarrow> gint) \<Rightarrow> GdkRectangle list \<Rightarrow> gint \<Rightarrow> gint" where
  "running_min f [] m = m"
| "running_min f (d # ds) m =
     (if nondegenerate d then running_min f ds (MIN_gint m (f d)) else running_min f ds m)"

text \<open>
  The order named in the comment above \<^verbatim>\<open>displays_cmp\<close>, on the indices of an array:
  from left to right, then from top to bottom, then by index, the coordinates read as
  integers.
\<close>

definition ordered_before :: "GdkRectangle list \<Rightarrow> nat \<Rightarrow> nat \<Rightarrow> bool" where
  "ordered_before displays i j =
     (sint (x (displays ! i)) < sint (x (displays ! j)) \<or>
      (sint (x (displays ! i)) = sint (x (displays ! j)) \<and>
       (sint (y (displays ! i)) < sint (y (displays ! j)) \<or>
        (sint (y (displays ! i)) = sint (y (displays ! j)) \<and> i < j))))"

text \<open>
  Coordinates whose differences fit a \<^verbatim>\<open>gint\<close>, and fewer than \<open>2^31\<close> rectangles.
\<close>

definition in_range :: "GdkRectangle list \<Rightarrow> bool" where
  "in_range displays =
     (length displays < 2147483648 \<and>
      list_all (\<lambda>d. - 1073741824 \<le> sint (x d) \<and> sint (x d) < 1073741824 \<and>
                     - 1073741824 \<le> sint (y d) \<and> sint (y d) < 1073741824) displays)"

text \<open>Two rectangles, the second one to the left of the first.\<close>

definition example_displays :: "GdkRectangle list" where
  "example_displays = [\<lparr>x = 100, y = 0, width = 50, height = 50\<rparr>,
                       \<lparr>x = 0, y = 0, width = 80, height = 50\<rparr>]"

text \<open>Two monitors that begin at (100, 50), and a rectangle without width.\<close>

definition two_monitors :: "GdkRectangle list" where
  "two_monitors = [\<lparr>x = 100, y = 50, width = 1280, height = 1024\<rparr>,
                   \<lparr>x = 1380, y = 70, width = 800, height = 600\<rparr>,
                   \<lparr>x = 7, y = 9, width = 0, height = 600\<rparr>]"

subsection \<open>Connection strings\<close>

text \<open>
  What libxml2's \<^verbatim>\<open>xmlParseURI\<close> returns for the two strings the statements below
  use. \<^verbatim>\<open>"xen:///"\<close> has the scheme \<^verbatim>\<open>xen\<close> and an empty authority, so no server;
  the empty string is an empty relative reference, so no field is set. No other string is
  parsed below.
\<close>

definition xen_uri :: xmlURI where
  "xen_uri = \<lparr>uri_scheme = Some ''xen'', uri_server = None, uri_user = None, uri_port = 0\<rparr>"

definition empty_uri :: xmlURI where
  "empty_uri = \<lparr>uri_scheme = None, uri_server = None, uri_user = None, uri_port = 0\<rparr>"

definition xmlParseURI_sample :: "string \<Rightarrow> xmlURI option" where
  "xmlParseURI_sample s =
     (if s = ''xen:///'' then Some xen_uri else if s = [] then Some empty_uri else None)"

text \<open>A caller that asks for every field, its variables cleared.\<close>

definition all_requested :: extract_host_out where
  "all_requested = \<lparr>scheme = Some None, host = Some None, transport = Some None,
                     user = Some None, port = Some 0\<rparr>"

subsection \<open>Signal connections\<close>

text \<open>The handler an instance has under an id, if it has one.\<close>

definition handler_of :: "gpointer \<Rightarrow> gulong \<Rightarrow> glib \<Rightarrow> Handler option" where
  "handler_of inst hid st = find (\<lambda>h. h_instance h = inst \<and> h_id h = hid) (handlers st)"

text \<open>
  A registration is released when its context is freed and no watch carries it any more.
\<close>

definition released :: "gpointer \<Rightarrow> glib \<Rightarrow> bool" where
  "released ctxp st =
     (slices st ctxp = None \<and>
      filter (\<lambda>w. snd (snd w) = ctxp) (weak_refs st) = [] \<and>
      filter (\<lambda>n. snd n = ctxp) (notifiers st) = [])"

text \<open>
  The state after object 2 is connected to the signal of object 1, with no flag set: the
  context is at address 16, the closure at 17, the handler id is 1.
\<close>

definition connected_glib :: glib where
  "connected_glib =
     snd (virt_viewer_signal_connect_object 1 (Some ''notify'') 7 2 0 initial_glib)"

section \<open>Properties of the version comparison\<close>

lemma compare_components_same: "fst (compare_components v v) = 0"
proof (induction v)
  case Nil
  show ?case by simp
next
  case (Cons c v)
  obtain m e where p: "g_ascii_strtoull c = (m, e)"
    by (cases "g_ascii_strtoull c")
  show ?case
    using Cons.IH by (simp add: p)
qed

text \<open>
  C5. The claim is that a non-numeric suffix in any component of either string makes the
  comparison return 0 with a warning. The loop leaves with the numeric difference before it
  looks at the suffix: for \<^verbatim>\<open>"1.1rc1"\<close> against \<^verbatim>\<open>"1.0"\<close> the result is 1 and
  nothing is logged.
\<close>

theorem compare_version_suffix_after_difference:
  "virt_viewer_compare_version (Some ''1.1rc1'') (Some ''1.0'') = (1, [])"
  by code_simp




lemma word_zero_iff_sint:
  fixes w :: gint
  shows "w = 0 \<longleftrightarrow> sint w = 0"
  by (metis signed_word_eqI sint_0)














text \<open>
  C10. Comparing a string with itself gives 0, whatever the string is: its components have
  equal values, and a suffix leaves the loop with 0 as well.
\<close>

theorem compare_version_reflexive:
  "fst (virt_viewer_compare_version (Some s) (Some s)) = 0"
  by (simp add: virt_viewer_compare_version_def compare_components_same)

section \<open>Properties of the monitor layout\<close>

subsection \<open>The minima the first loop finds\<close>

lemma find_min_running: "find_min ds a b = (running_min x ds a, running_min y ds b)"
  by (induction ds arbitrary: a b) simp_all

lemma sint_MIN_gint: "sint (MIN_gint a b) = min (sint a) (sint b)"
  by (simp add: MIN_gint_def word_sless_alt min_def)

lemma running_min_le_start: "sint (running_min f ds m) \<le> sint m"
proof (induction ds arbitrary: m)
  case Nil
  show ?case by simp
next
  case (Cons d ds)
  have "sint (running_min f ds (MIN_gint m (f d))) \<le> sint (MIN_gint m (f d))"
    by (rule Cons.IH)
  also have "\<dots> \<le> sint m"
    by (simp add: sint_MIN_gint)
  finally show ?case
    using Cons.IH [of m] by simp
qed

lemma running_min_le_member:
  "d \<in> set ds \<Longrightarrow> nondegenerate d \<Longrightarrow> sint (running_min f ds m) \<le> sint (f d)"
proof (induction ds arbitrary: m)
  case Nil
  then show ?case by simp
next
  case (Cons e ds)
  show ?case
  proof (cases "d = e")
    case True
    have "sint (running_min f ds (MIN_gint m (f e))) \<le> sint (MIN_gint m (f e))"
      by (rule running_min_le_start)
    also have "\<dots> \<le> sint (f e)"
      by (simp add: sint_MIN_gint)
    finally show ?thesis
      using True Cons.prems by simp
  next
    case False
    with Cons.prems have "d \<in> set ds" by simp
    then show ?thesis
      using Cons.IH Cons.prems(2) by simp
  qed
qed

lemma running_min_attained:
  "running_min f ds m = m \<or> (\<exists>d\<in>set ds. nondegenerate d \<and> running_min f ds m = f d)"
proof (induction ds arbitrary: m)
  case Nil
  show ?case by simp
next
  case (Cons e ds)
  show ?case
  proof (cases "nondegenerate e")
    case True
    have "MIN_gint m (f e) = m \<or> MIN_gint m (f e) = f e"
      by (simp add: MIN_gint_def)
    then show ?thesis
      using Cons.IH [of "MIN_gint m (f e)"] True by auto
  next
    case False
    then show ?thesis
      using Cons.IH [of m] by auto
  qed
qed

lemma sint_le_G_MAXINT: "sint (w :: gint) \<le> sint G_MAXINT"
proof -
  have "sint w < 2 ^ (LENGTH(32) - 1)"
    by (rule sint_lt)
  then show ?thesis
    by (simp add: G_MAXINT_def)
qed

lemma running_min_is_Min:
  assumes "\<exists>d\<in>set ds. nondegenerate d"
  shows "Min (set (map (\<lambda>d. sint (f d)) (filter nondegenerate ds))) = sint (running_min f ds G_MAXINT)"
proof (rule Min_eqI)
  show "finite (set (map (\<lambda>d. sint (f d)) (filter nondegenerate ds)))"
    by simp
next
  fix v
  assume "v \<in> set (map (\<lambda>d. sint (f d)) (filter nondegenerate ds))"
  then show "sint (running_min f ds G_MAXINT) \<le> v"
    by (auto simp: running_min_le_member)
next
  from assms obtain d0 where d0: "d0 \<in> set ds" "nondegenerate d0"
    by blast
  consider "running_min f ds G_MAXINT = G_MAXINT"
    | d where "d \<in> set ds" "nondegenerate d" "running_min f ds G_MAXINT = f d"
    using running_min_attained [of f ds G_MAXINT] by blast
  then show "sint (running_min f ds G_MAXINT) \<in> set (map (\<lambda>d. sint (f d)) (filter nondegenerate ds))"
  proof cases
    case 1
    have "sint (running_min f ds G_MAXINT) \<le> sint (f d0)"
      using d0 by (rule running_min_le_member)
    moreover have "sint (f d0) \<le> sint G_MAXINT"
      by (rule sint_le_G_MAXINT)
    ultimately have "sint (running_min f ds G_MAXINT) = sint (f d0)"
      using 1 by simp
    then show ?thesis
      using d0 by force
  next
    case 2
    then show ?thesis by force
  qed
qed


lemma sint_diff_fits:
  fixes a b :: gint
  assumes "0 \<le> sint a - sint b" and "sint a - sint b < 2147483648"
  shows "sint (a - b) = sint a - sint b"
proof -
  have "sint (a - b) = signed_take_bit (LENGTH(32) - 1) (sint a - sint b)"
    by (rule sint_word_ariths)
  also have "\<dots> = sint a - sint b"
    using assms by (intro signed_take_bit_int_eq_self) simp_all
  finally show ?thesis .
qed

lemma nondegenerate_shift_by [simp]: "nondegenerate (shift_by xm ym d) = nondegenerate d"
  by (simp add: shift_by_def nondegenerate_def)

lemma filter_nondegenerate_shift:
  "filter nondegenerate (map (shift_by xm ym) ds) = map (shift_by xm ym) (filter nondegenerate ds)"
  by (induction ds) simp_all

lemma Min_map_attained:
  assumes "\<exists>d\<in>set ds. nondegenerate d"
  shows "\<exists>d\<in>set ds. nondegenerate d \<and>
           sint (f d) = Min (set (map (\<lambda>d. sint (f d)) (filter nondegenerate ds)))"
proof -
  let ?S = "set (map (\<lambda>d. sint (f d)) (filter nondegenerate ds))"
  have "finite ?S" by simp
  moreover have "?S \<noteq> {}" using assms by auto
  ultimately have "Min ?S \<in> ?S" by (rule Min_in)
  then show ?thesis by auto
qed

lemma Min_shifted:
  fixes f g :: "GdkRectangle \<Rightarrow> gint"
  assumes nd: "\<exists>d\<in>set ds. nondegenerate d"
    and m: "sint m = Min (set (map (\<lambda>d. sint (f d)) (filter nondegenerate ds)))"
    and fit: "\<forall>d\<in>set ds. nondegenerate d \<longrightarrow> sint (f d) - sint m < 2147483648"
    and g: "\<forall>d\<in>set ds. nondegenerate d \<longrightarrow> g (h d) = f d - m"
  shows "Min (set (map (\<lambda>d. sint (g d)) (map h (filter nondegenerate ds)))) = 0"
proof (rule Min_eqI)
  show "finite (set (map (\<lambda>d. sint (g d)) (map h (filter nondegenerate ds))))"
    by simp
next
  fix v
  assume "v \<in> set (map (\<lambda>d. sint (g d)) (map h (filter nondegenerate ds)))"
  then obtain d where d: "d \<in> set ds" "nondegenerate d" and v: "v = sint (g (h d))"
    by auto
  have "sint m \<le> sint (f d)"
    unfolding m using d by (intro Min_le) auto
  then have "sint (f d - m) = sint (f d) - sint m"
    using fit d by (intro sint_diff_fits) auto
  then show "0 \<le> v"
    using v g d \<open>sint m \<le> sint (f d)\<close> by simp
next
  from Min_map_attained [OF nd, of f] obtain d
    where d: "d \<in> set ds" "nondegenerate d" and e: "sint (f d) = sint m"
    using m by auto
  from e have "f d = m" by (rule signed_word_eqI)
  then have "sint (g (h d)) = 0"
    using g d by simp
  then show "0 \<in> set (map (\<lambda>d. sint (g d)) (map h (filter nondegenerate ds)))"
    using d by force
qed

subsection \<open>The shift to the origin\<close>

text \<open>
  C8. The claim is that after the call the minimum over the rectangles of positive width
  and height is the origin, as the comment above the function says (``Shift all displays so
  that the monitor origin is at (0,0)''). For one monitor of 100 by 100 at (-10, -10)
  neither minimum is positive, the test \<^verbatim>\<open>xmin > 0 || ymin > 0\<close> skips the second loop,
  the array is returned as it was, and the minimum stays (-10, -10).
\<close>

theorem shift_monitors_negative_unshifted:
  "virt_viewer_shift_monitors_to_origin [\<lparr>x = - 10, y = - 10, width = 100, height = 100\<rparr>] =
     [\<lparr>x = - 10, y = - 10, width = 100, height = 100\<rparr>] \<and>
   min_x (virt_viewer_shift_monitors_to_origin [\<lparr>x = - 10, y = - 10, width = 100, height = 100\<rparr>]) = - 10 \<and>
   min_y (virt_viewer_shift_monitors_to_origin [\<lparr>x = - 10, y = - 10, width = 100, height = 100\<rparr>]) = - 10"
  by (simp add: virt_viewer_shift_monitors_to_origin_def min_x_def min_y_def nondegenerate_def
      MIN_gint_def G_MAXINT_def word_sless_alt)

text \<open>
  Where the shift does reach the origin. Let the array have a rectangle of positive width
  and height, let the minimum \<open>x\<close> and the minimum \<open>y\<close> over such rectangles both be
  below \<^verbatim>\<open>G_MAXINT\<close>, let at least one of them be positive or both be 0, and let no
  difference to a minimum pass \<^verbatim>\<open>G_MAXINT\<close>. Then the call moves every such rectangle
  by the two minima, leaves the others alone, and afterwards the minimum \<open>x\<close> and the
  minimum \<open>y\<close> over such rectangles are both 0.
\<close>

theorem shift_monitors_to_origin_min:
  assumes nd: "\<exists>d\<in>set displays. nondegenerate d"
    and lim: "min_x displays < 2147483647 \<and> min_y displays < 2147483647"
    and pos: "0 < min_x displays \<or> 0 < min_y displays \<or>
              (min_x displays = 0 \<and> min_y displays = 0)"
    and fit: "\<forall>d\<in>set displays. nondegenerate d \<longrightarrow>
                sint (x d) - min_x displays < 2147483648 \<and>
                sint (y d) - min_y displays < 2147483648"
  shows "virt_viewer_shift_monitors_to_origin displays =
           map (shift_by (word_of_int (min_x displays)) (word_of_int (min_y displays))) displays \<and>
         min_x (virt_viewer_shift_monitors_to_origin displays) = 0 \<and>
         min_y (virt_viewer_shift_monitors_to_origin displays) = 0"
proof -
  define xm where "xm = running_min x displays G_MAXINT"
  define ym where "ym = running_min y displays G_MAXINT"
  have sx: "sint xm = min_x displays"
    unfolding xm_def min_x_def by (rule running_min_is_Min [OF nd, symmetric])
  have sy: "sint ym = min_y displays"
    unfolding ym_def min_y_def by (rule running_min_is_Min [OF nd, symmetric])
  have wx: "word_of_int (min_x displays) = xm"
  proof -
    have "word_of_int (sint xm) = xm" by simp
    then show ?thesis by (simp only: sx)
  qed
  have wy: "word_of_int (min_y displays) = ym"
  proof -
    have "word_of_int (sint ym) = ym" by simp
    then show ?thesis by (simp only: sy)
  qed
  have ne: "0 < length displays"
    using nd by auto
  have below: "xm <s G_MAXINT \<and> ym <s G_MAXINT"
    using lim sx sy by (simp add: word_sless_alt G_MAXINT_def)
  have run: "virt_viewer_shift_monitors_to_origin displays = map (shift_by xm ym) displays"
  proof (cases "0 <s xm \<or> 0 <s ym")
    case True
    then show ?thesis
      using ne below
      by (simp add: virt_viewer_shift_monitors_to_origin_def find_min_running xm_def ym_def)
  next
    case False
    then have "sint xm = 0 \<and> sint ym = 0"
      using pos sx sy by (simp add: word_sless_alt)
    then have z: "xm = 0 \<and> ym = 0"
      by (simp add: word_zero_iff_sint)
    then have "map (shift_by xm ym) displays = displays"
      by (simp add: shift_by_def map_idI)
    moreover have "virt_viewer_shift_monitors_to_origin displays = displays"
      using ne False
      by (simp add: virt_viewer_shift_monitors_to_origin_def find_min_running xm_def ym_def)
    ultimately show ?thesis by simp
  qed
  have mx: "min_x (map (shift_by xm ym) displays) = 0"
    unfolding min_x_def filter_nondegenerate_shift
  proof (rule Min_shifted [OF nd, where f = x and m = xm])
    show "sint xm = Min (set (map (\<lambda>d. sint (x d)) (filter nondegenerate displays)))"
      using sx by (simp add: min_x_def)
    show "\<forall>d\<in>set displays. nondegenerate d \<longrightarrow> sint (x d) - sint xm < 2147483648"
      using fit sx by simp
    show "\<forall>d\<in>set displays. nondegenerate d \<longrightarrow> x (shift_by xm ym d) = x d - xm"
      by (simp add: shift_by_def)
  qed
  have my: "min_y (map (shift_by xm ym) displays) = 0"
    unfolding min_y_def filter_nondegenerate_shift
  proof (rule Min_shifted [OF nd, where f = y and m = ym])
    show "sint ym = Min (set (map (\<lambda>d. sint (y d)) (filter nondegenerate displays)))"
      using sy by (simp add: min_y_def)
    show "\<forall>d\<in>set displays. nondegenerate d \<longrightarrow> sint (y d) - sint ym < 2147483648"
      using fit sy by simp
    show "\<forall>d\<in>set displays. nondegenerate d \<longrightarrow> y (shift_by xm ym d) = y d - ym"
      by (simp add: shift_by_def)
  qed
  show ?thesis
    using run mx my wx wy by simp
qed

text \<open>The hypotheses hold for the two monitors at (100, 50), which end up at (0, 0).\<close>

lemma min_x_two: "min_x two_monitors = 100"
  by (simp add: min_x_def two_monitors_def nondegenerate_def word_sless_alt)
lemma min_y_two: "min_y two_monitors = 50"
  by (simp add: min_y_def two_monitors_def nondegenerate_def word_sless_alt)

theorem shift_monitors_to_origin_min_witness:
  "(\<exists>d\<in>set two_monitors. nondegenerate d) \<and>
   (min_x two_monitors < 2147483647 \<and> min_y two_monitors < 2147483647) \<and>
   virt_viewer_shift_monitors_to_origin two_monitors =
     [\<lparr>x = 0, y = 0, width = 1280, height = 1024\<rparr>,
      \<lparr>x = 1280, y = 20, width = 800, height = 600\<rparr>,
      \<lparr>x = 7, y = 9, width = 0, height = 600\<rparr>] \<and>
   min_x (virt_viewer_shift_monitors_to_origin two_monitors) = 0 \<and>
   min_y (virt_viewer_shift_monitors_to_origin two_monitors) = 0"
proof -
  have nd: "\<exists>d\<in>set two_monitors. nondegenerate d"
    by (simp add: two_monitors_def nondegenerate_def word_sless_alt)
  have lim: "min_x two_monitors < 2147483647 \<and> min_y two_monitors < 2147483647"
    by (simp add: min_x_two min_y_two)
  have pos: "0 < min_x two_monitors \<or> 0 < min_y two_monitors \<or>
             (min_x two_monitors = 0 \<and> min_y two_monitors = 0)"
    by (simp add: min_x_two)
  have fit: "\<forall>d\<in>set two_monitors. nondegenerate d \<longrightarrow>
      sint (x d) - min_x two_monitors < 2147483648 \<and>
      sint (y d) - min_y two_monitors < 2147483648"
    unfolding min_x_two min_y_two by (simp add: two_monitors_def)
  have run: "map (shift_by (word_of_int 100) (word_of_int 50)) two_monitors =
     [\<lparr>x = 0, y = 0, width = 1280, height = 1024\<rparr>,
      \<lparr>x = 1280, y = 20, width = 800, height = 600\<rparr>,
      \<lparr>x = 7, y = 9, width = 0, height = 600\<rparr>]"
    by (simp add: two_monitors_def shift_by_def nondegenerate_def word_sless_alt)
  note t = shift_monitors_to_origin_min [OF nd lim pos fit]
  have r: "virt_viewer_shift_monitors_to_origin two_monitors =
     [\<lparr>x = 0, y = 0, width = 1280, height = 1024\<rparr>,
      \<lparr>x = 1280, y = 20, width = 800, height = 600\<rparr>,
      \<lparr>x = 7, y = 9, width = 0, height = 600\<rparr>]"
    using t run by (simp add: min_x_two min_y_two)
  show ?thesis
    using nd lim pos fit r t by blast
qed

subsection \<open>The linear alignment\<close>

text \<open>
  C9. The claim is that the rectangles are ordered by \<open>x\<close>, then \<open>y\<close>, then index, and
  placed from left to right in that order. \<^verbatim>\<open>displays_cmp\<close> returns the 32-bit difference
  of the two \<open>x\<close>: for \<open>x = 2147483647\<close> against \<open>x = -2\<close> it wraps to a negative value,
  so the rectangle with the larger \<open>x\<close> is sorted first and placed at 0, and the one with
  the smaller \<open>x\<close> follows at 50.
\<close>

theorem align_monitors_overflow:
  "virt_viewer_align_monitors_linear
     (Some [\<lparr>x = 2147483647, y = 0, width = 50, height = 50\<rparr>,
            \<lparr>x = - 2, y = 0, width = 80, height = 50\<rparr>]) =
   Inr (Some [\<lparr>x = 0, y = 0, width = 50, height = 50\<rparr>,
              \<lparr>x = 50, y = 0, width = 80, height = 50\<rparr>])"
  by code_simp

text \<open>
  Where the coordinates are in range, the comparison function decides that order.
\<close>

lemma sint_diff_in_range:
  fixes a b :: gint
  assumes "- 2147483648 \<le> sint a - sint b" and "sint a - sint b < 2147483648"
  shows "sint (a - b) = sint a - sint b"
proof -
  have "sint (a - b) = signed_take_bit (LENGTH(32) - 1) (sint a - sint b)"
    by (rule sint_word_ariths)
  also have "\<dots> = sint a - sint b"
    using assms by (intro signed_take_bit_int_eq_self) simp_all
  finally show ?thesis .
qed

lemma sint_index:
  assumes "i < 2147483648"
  shows "sint (word_of_nat i :: gint) = int i"
proof -
  have "sint (word_of_nat i :: gint) = signed_take_bit (LENGTH(32) - Suc 0) (int i)"
    using signed_of_nat [where 'a = int and 'b = 32, of i] by simp
  also have "\<dots> = int i"
    using assms by (intro signed_take_bit_int_eq_self) simp_all
  finally show ?thesis .
qed

lemma displays_cmp_sign:
  assumes r: "in_range displays" and i: "i < length displays" and j: "j < length displays"
  shows "sint (displays_cmp displays i j) \<le> 0 \<longleftrightarrow> i = j \<or> ordered_before displays i j"
proof -
  let ?a = "displays ! i" and ?b = "displays ! j"
  have ma: "?a \<in> set displays" and mb: "?b \<in> set displays"
    using i j by simp_all
  have ba: "- 1073741824 \<le> sint (x ?a) \<and> sint (x ?a) < 1073741824 \<and>
            - 1073741824 \<le> sint (y ?a) \<and> sint (y ?a) < 1073741824"
    using r ma by (simp add: in_range_def list_all_iff)
  have bb: "- 1073741824 \<le> sint (x ?b) \<and> sint (x ?b) < 1073741824 \<and>
            - 1073741824 \<le> sint (y ?b) \<and> sint (y ?b) < 1073741824"
    using r mb by (simp add: in_range_def list_all_iff)
  have n: "i < 2147483648" "j < 2147483648"
    using r i j by (simp_all add: in_range_def)
  have dx: "sint (x ?a - x ?b) = sint (x ?a) - sint (x ?b)"
    using ba bb by (intro sint_diff_in_range) simp_all
  have dy: "sint (y ?a - y ?b) = sint (y ?a) - sint (y ?b)"
    using ba bb by (intro sint_diff_in_range) simp_all
  have di: "sint (word_of_nat i - word_of_nat j :: gint) = int i - int j"
    using n by (subst sint_diff_in_range) (simp_all add: sint_index)
  have zx: "x ?a - x ?b = 0 \<longleftrightarrow> sint (x ?a) = sint (x ?b)"
    using dx by (simp add: word_zero_iff_sint)
  have zy: "y ?a - y ?b = 0 \<longleftrightarrow> sint (y ?a) = sint (y ?b)"
    using dy by (simp add: word_zero_iff_sint)
  consider (x) "sint (x ?a) \<noteq> sint (x ?b)"
    | (y) "sint (x ?a) = sint (x ?b)" "sint (y ?a) \<noteq> sint (y ?b)"
    | (i) "sint (x ?a) = sint (x ?b)" "sint (y ?a) = sint (y ?b)"
    by blast
  then show ?thesis
  proof cases
    case x
    then have "displays_cmp displays i j = x ?a - x ?b"
      using zx by (simp add: displays_cmp_def)
    then show ?thesis
      using x dx by (auto simp: ordered_before_def)
  next
    case y
    then have "displays_cmp displays i j = y ?a - y ?b"
      using zx zy by (simp add: displays_cmp_def)
    then show ?thesis
      using y dy by (auto simp: ordered_before_def)
  next
    case i
    then have "displays_cmp displays i j = word_of_nat i - word_of_nat j"
      using zx zy by (simp add: displays_cmp_def)
    then show ?thesis
      using i di by (auto simp: ordered_before_def)
  qed
qed

lemma ordered_before_total:
  "i \<noteq> j \<Longrightarrow> ordered_before displays i j \<or> ordered_before displays j i"
  unfolding ordered_before_def by linarith

lemma ordered_before_trans:
  "ordered_before displays i j \<Longrightarrow> ordered_before displays j k \<Longrightarrow> ordered_before displays i k"
  unfolding ordered_before_def by linarith

lemma displays_cmp_total:
  assumes "in_range displays"
  shows "\<forall>a\<in>{0..<length displays}. \<forall>b\<in>{0..<length displays}.
           sint (displays_cmp displays a b) \<le> 0 \<or> sint (displays_cmp displays b a) \<le> 0"
proof (intro ballI)
  fix a b
  assume "a \<in> {0..<length displays}" and "b \<in> {0..<length displays}"
  then have a: "a < length displays" and b: "b < length displays"
    by simp_all
  show "sint (displays_cmp displays a b) \<le> 0 \<or> sint (displays_cmp displays b a) \<le> 0"
    unfolding displays_cmp_sign [OF assms a b] displays_cmp_sign [OF assms b a]
    using ordered_before_total [of a b displays] by blast
qed

lemma displays_cmp_trans:
  assumes "in_range displays"
  shows "\<forall>a\<in>{0..<length displays}. \<forall>b\<in>{0..<length displays}. \<forall>c\<in>{0..<length displays}.
           sint (displays_cmp displays a b) \<le> 0 \<longrightarrow> sint (displays_cmp displays b c) \<le> 0 \<longrightarrow>
           sint (displays_cmp displays a c) \<le> 0"
proof (intro ballI impI)
  fix a b c
  assume "a \<in> {0..<length displays}" and "b \<in> {0..<length displays}"
    and "c \<in> {0..<length displays}"
  then have a: "a < length displays" and b: "b < length displays" and c: "c < length displays"
    by simp_all
  assume "sint (displays_cmp displays a b) \<le> 0" and "sint (displays_cmp displays b c) \<le> 0"
  then have "a = b \<or> ordered_before displays a b" and "b = c \<or> ordered_before displays b c"
    unfolding displays_cmp_sign [OF assms a b] displays_cmp_sign [OF assms b c] by simp_all
  then have "a = c \<or> ordered_before displays a c"
    using ordered_before_trans [of displays a b c] by blast
  then show "sint (displays_cmp displays a c) \<le> 0"
    unfolding displays_cmp_sign [OF assms a c] .
qed

text \<open>The sort returns the same elements, sorted where the comparison is a total preorder.\<close>

lemma set_merge_with_data: "set (merge_with_data cmp as bs) = set as \<union> set bs"
  by (induction cmp as bs rule: merge_with_data.induct) auto

lemma length_merge_with_data: "length (merge_with_data cmp as bs) = length as + length bs"
  by (induction cmp as bs rule: merge_with_data.induct) auto

lemma g_qsort_with_data_same:
  "set (g_qsort_with_data b cmp) = set b \<and> length (g_qsort_with_data b cmp) = length b"
proof (induction b cmp rule: g_qsort_with_data.induct)
  case (1 b cmp)
  show ?case
  proof (cases "length b \<le> 1")
    case True
    then show ?thesis
      by (simp add: g_qsort_with_data.simps [of b])
  next
    case False
    have "set (take (length b div 2) b) \<union> set (drop (length b div 2) b) = set b"
      by (metis append_take_drop_id set_append)
    then show ?thesis
      using False 1
      by (simp add: g_qsort_with_data.simps [of b] set_merge_with_data length_merge_with_data)
  qed
qed

text \<open>Merging keeps two sorted runs sorted when the comparison is a total preorder on them.\<close>

lemma sorted_merge_with_data:
  "\<forall>a\<in>S. \<forall>b\<in>S. sint (cmp a b) \<le> 0 \<or> sint (cmp b a) \<le> 0 \<Longrightarrow>
   \<forall>a\<in>S. \<forall>b\<in>S. \<forall>c\<in>S. sint (cmp a b) \<le> 0 \<longrightarrow> sint (cmp b c) \<le> 0 \<longrightarrow> sint (cmp a c) \<le> 0 \<Longrightarrow>
   set as \<subseteq> S \<Longrightarrow> set bs \<subseteq> S \<Longrightarrow>
   sorted_wrt (\<lambda>a b. sint (cmp a b) \<le> 0) as \<Longrightarrow>
   sorted_wrt (\<lambda>a b. sint (cmp a b) \<le> 0) bs \<Longrightarrow>
   sorted_wrt (\<lambda>a b. sint (cmp a b) \<le> 0) (merge_with_data cmp as bs)"
proof (induction cmp as bs rule: merge_with_data.induct)
  case (1 cmp b2)
  show ?case
    using "1.prems"(6) by simp
next
  case (2 cmp a b1)
  show ?case
    using "2.prems"(5) by simp
next
  case (3 cmp a b1 b b2)
  note tot = "3.prems"(1) and tr = "3.prems"(2)
  have mem: "a \<in> S" "b \<in> S" "set b1 \<subseteq> S" "set b2 \<subseteq> S"
    using "3.prems"(3,4) by simp_all
  have sa: "\<forall>c\<in>set b1. sint (cmp a c) \<le> 0" "sorted_wrt (\<lambda>a b. sint (cmp a b) \<le> 0) b1"
    using "3.prems"(5) by simp_all
  have sb: "\<forall>c\<in>set b2. sint (cmp b c) \<le> 0" "sorted_wrt (\<lambda>a b. sint (cmp a b) \<le> 0) b2"
    using "3.prems"(6) by simp_all
  show ?case
  proof (cases "sint (cmp a b) \<le> 0")
    case True
    have "\<forall>c\<in>set b2. sint (cmp a c) \<le> 0"
    proof
      fix c assume c: "c \<in> set b2"
      have bc: "sint (cmp b c) \<le> 0" and cS: "c \<in> S"
        using c sb(1) mem(4) by auto
      show "sint (cmp a c) \<le> 0"
        by (rule tr [rule_format, OF mem(1) mem(2) cS True bc])
    qed
    moreover have "sorted_wrt (\<lambda>a b. sint (cmp a b) \<le> 0) (merge_with_data cmp b1 (b # b2))"
      by (rule "3.IH"(1) [OF True tot tr mem(3) "3.prems"(4) sa(2) "3.prems"(6)])
    ultimately show ?thesis
      using True sa(1) by (auto simp: set_merge_with_data)
  next
    case False
    have "sint (cmp a b) \<le> 0 \<or> sint (cmp b a) \<le> 0"
      by (rule tot [rule_format, OF mem(1) mem(2)])
    then have ba: "sint (cmp b a) \<le> 0"
      using False by simp
    have "\<forall>c\<in>set b1. sint (cmp b c) \<le> 0"
    proof
      fix c assume c: "c \<in> set b1"
      have ac: "sint (cmp a c) \<le> 0" and cS: "c \<in> S"
        using c sa(1) mem(3) by auto
      show "sint (cmp b c) \<le> 0"
        by (rule tr [rule_format, OF mem(2) mem(1) cS ba ac])
    qed
    moreover have "sorted_wrt (\<lambda>a b. sint (cmp a b) \<le> 0) (merge_with_data cmp (a # b1) b2)"
      by (rule "3.IH"(2) [OF False tot tr "3.prems"(3) mem(4) "3.prems"(5) sb(2)])
    ultimately show ?thesis
      using False ba sb(1) by (auto simp: set_merge_with_data)
  qed
qed

lemma sorted_g_qsort_with_data:
  "\<forall>a\<in>S. \<forall>b\<in>S. sint (cmp a b) \<le> 0 \<or> sint (cmp b a) \<le> 0 \<Longrightarrow>
   \<forall>a\<in>S. \<forall>b\<in>S. \<forall>c\<in>S. sint (cmp a b) \<le> 0 \<longrightarrow> sint (cmp b c) \<le> 0 \<longrightarrow> sint (cmp a c) \<le> 0 \<Longrightarrow>
   set b \<subseteq> S \<Longrightarrow> sorted_wrt (\<lambda>a b. sint (cmp a b) \<le> 0) (g_qsort_with_data b cmp)"
proof (induction b cmp rule: g_qsort_with_data.induct)
  case (1 b cmp)
  note tot = "1.prems"(1) and tr = "1.prems"(2)
  show ?case
  proof (cases "length b \<le> 1")
    case True
    then have "g_qsort_with_data b cmp = b" and "b = [] \<or> (\<exists>e. b = [e])"
      by (simp add: g_qsort_with_data.simps [of b], cases b) auto
    then show ?thesis
      by auto
  next
    case False
    define l where "l = take (length b div 2) b"
    define r where "r = drop (length b div 2) b"
    have sl: "set l \<subseteq> S" and sr: "set r \<subseteq> S"
      using "1.prems"(3) set_take_subset [of "length b div 2" b]
        set_drop_subset [of "length b div 2" b]
      unfolding l_def r_def by blast+
    have ml: "set (g_qsort_with_data l cmp) \<subseteq> S" and mr: "set (g_qsort_with_data r cmp) \<subseteq> S"
      using sl sr by (simp_all add: g_qsort_with_data_same)
    have ol: "sorted_wrt (\<lambda>a b. sint (cmp a b) \<le> 0) (g_qsort_with_data l cmp)"
      unfolding l_def by (rule "1.IH"(1) [OF False tot tr sl [unfolded l_def]])
    have or: "sorted_wrt (\<lambda>a b. sint (cmp a b) \<le> 0) (g_qsort_with_data r cmp)"
      unfolding r_def by (rule "1.IH"(2) [OF False tot tr sr [unfolded r_def]])
    have "g_qsort_with_data b cmp =
            merge_with_data cmp (g_qsort_with_data l cmp) (g_qsort_with_data r cmp)"
      using False by (simp add: g_qsort_with_data.simps [of b] l_def r_def)
    then show ?thesis
      using sorted_merge_with_data [OF tot tr ml mr ol or] by simp
  qed
qed

lemma sorted_wrt_distinct_strict:
  assumes "\<And>a b. a \<in> set xs \<Longrightarrow> b \<in> set xs \<Longrightarrow> a \<noteq> b \<Longrightarrow> P a b \<Longrightarrow> Q a b"
  shows "sorted_wrt P xs \<Longrightarrow> distinct xs \<Longrightarrow> sorted_wrt Q xs"
  using assms
proof (induction xs)
  case Nil
  show ?case by simp
next
  case (Cons e xs)
  have "\<forall>b\<in>set xs. Q e b"
  proof
    fix b assume b: "b \<in> set xs"
    then have "e \<noteq> b" and "P e b"
      using Cons.prems(1,2) by auto
    then show "Q e b"
      using Cons.prems(3) [of e b] b by simp
  qed
  moreover have "sorted_wrt Q xs"
    using Cons.IH Cons.prems by simp
  ultimately show ?case by simp
qed

lemma sorted_displays_order:
  assumes r: "in_range displays"
  defines "order \<equiv> g_qsort_with_data [0..<length displays] (displays_cmp displays)"
  shows "set order = {0..<length displays}" and "length order = length displays"
    and "distinct order" and "sorted_wrt (ordered_before displays) order"
proof -
  show s: "set order = {0..<length displays}" and l: "length order = length displays"
    by (simp_all add: order_def g_qsort_with_data_same)
  show d: "distinct order"
    by (rule card_distinct) (simp add: s l)
  have "sorted_wrt (\<lambda>a b. sint (displays_cmp displays a b) \<le> 0) order"
    unfolding order_def
    by (rule sorted_g_qsort_with_data [OF displays_cmp_total [OF r] displays_cmp_trans [OF r]]) simp
  then show "sorted_wrt (ordered_before displays) order"
  proof (rule sorted_wrt_distinct_strict [rotated])
    show "distinct order" by (rule d)
  next
    fix a b
    assume "a \<in> set order" and "b \<in> set order" and ne: "a \<noteq> b"
      and le: "sint (displays_cmp displays a b) \<le> 0"
    then have "a < length displays" and "b < length displays"
      by (simp_all add: s)
    then show "ordered_before displays a b"
      using le ne displays_cmp_sign [OF r] by blast
  qed
qed

text \<open>The second loop, run over distinct indices of the array.\<close>

lemma width_after_move:
  "width (displays[n := (displays ! n)\<lparr>x := a, y := b\<rparr>] ! i) = width (displays ! i)"
proof (cases "i = n \<and> n < length displays")
  case True
  then show ?thesis by simp
next
  case False
  then show ?thesis
    by (cases "i = n") (simp_all add: list_update_beyond)
qed

lemma adjust_positions_result:
  "distinct idxs \<Longrightarrow> set idxs \<subseteq> {0..<length displays} \<Longrightarrow>
   \<exists>displays'. adjust_positions idxs xpos displays = Inr displays' \<and>
     length displays' = length displays \<and>
     (\<forall>k<length idxs. displays' ! (idxs ! k) =
        (displays ! (idxs ! k))\<lparr>x := xpos + sum_list (map (\<lambda>i. width (displays ! i)) (take k idxs)),
                                 y := 0\<rparr>) \<and>
     (\<forall>i<length displays. i \<notin> set idxs \<longrightarrow> displays' ! i = displays ! i)"
proof (induction idxs arbitrary: xpos displays)
  case Nil
  show ?case by simp
next
  case (Cons n idxs)
  define moved where "moved = displays[n := (displays ! n)\<lparr>x := xpos, y := 0\<rparr>]"
  have n: "n < length displays" and nn: "n \<notin> set idxs" and d: "distinct idxs"
    and sub: "set idxs \<subseteq> {0..<length moved}"
    using Cons.prems by (simp_all add: moved_def)
  from Cons.IH [OF d sub, of "xpos + width (displays ! n)"] obtain displays'
    where run: "adjust_positions idxs (xpos + width (displays ! n)) moved = Inr displays'"
      and len: "length displays' = length moved"
      and pos: "\<forall>k<length idxs. displays' ! (idxs ! k) =
        (moved ! (idxs ! k))\<lparr>x := xpos + width (displays ! n) +
                                    sum_list (map (\<lambda>i. width (moved ! i)) (take k idxs)),
                               y := 0\<rparr>"
      and rest: "\<forall>i<length moved. i \<notin> set idxs \<longrightarrow> displays' ! i = moved ! i"
    by blast
  have w: "\<And>is. map (\<lambda>i. width (moved ! i)) is = map (\<lambda>i. width (displays ! i)) is"
    by (simp add: moved_def width_after_move)
  have first: "displays' ! n = (displays ! n)\<lparr>x := xpos, y := 0\<rparr>"
    using rest n nn by (simp add: moved_def)
  have "\<forall>k<length (n # idxs). displays' ! ((n # idxs) ! k) =
        (displays ! ((n # idxs) ! k))\<lparr>x := xpos + sum_list (map (\<lambda>i. width (displays ! i)) (take k (n # idxs))),
                                       y := 0\<rparr>"
  proof (intro allI impI)
    fix k assume k: "k < length (n # idxs)"
    show "displays' ! ((n # idxs) ! k) =
        (displays ! ((n # idxs) ! k))\<lparr>x := xpos + sum_list (map (\<lambda>i. width (displays ! i)) (take k (n # idxs))),
                                       y := 0\<rparr>"
    proof (cases k)
      case 0
      then show ?thesis by (simp add: first)
    next
      case (Suc k')
      then have k': "k' < length idxs" using k by simp
      then have "idxs ! k' \<in> set idxs" by simp
      then have "idxs ! k' \<noteq> n" using nn by blast
      then have "moved ! (idxs ! k') = displays ! (idxs ! k')"
        by (simp add: moved_def)
      then show ?thesis
        using pos k' Suc by (simp add: w add.assoc)
    qed
  qed
  moreover have "\<forall>i<length displays. i \<notin> set (n # idxs) \<longrightarrow> displays' ! i = displays ! i"
    using rest by (simp add: moved_def)
  moreover have "adjust_positions (n # idxs) xpos displays = Inr displays'"
    using n run by (simp add: moved_def)
  moreover have "length displays' = length displays"
    using len by (simp add: moved_def)
  ultimately show ?case by blast
qed

text \<open>
  For a non-empty array in range, the call returns and there is an order of the indices,
  sorted by \<open>x\<close>, then \<open>y\<close>, then index, such that the rectangle at each position of the
  order starts at the sum of the widths of the rectangles before it in the order, the
  first one at 0, with \<open>y = 0\<close> and its width and height unchanged.
\<close>

theorem align_monitors_linear_in_range:
  assumes ne: "displays \<noteq> []" and r: "in_range displays"
  shows "\<exists>order displays'.
           virt_viewer_align_monitors_linear (Some displays) = Inr (Some displays') \<and>
           set order = {0..<length displays} \<and> distinct order \<and>
           sorted_wrt (ordered_before displays) order \<and>
           length displays' = length displays \<and>
           (\<forall>k<length displays. displays' ! (order ! k) =
              (displays ! (order ! k))\<lparr>x := sum_list (map (\<lambda>i. width (displays ! i)) (take k order)),
                                         y := 0\<rparr>)"
proof -
  define order where "order = g_qsort_with_data [0..<length displays] (displays_cmp displays)"
  note o = sorted_displays_order [OF r, folded order_def]
  have sub: "set order \<subseteq> {0..<length displays}"
    using o(1) by simp
  from adjust_positions_result [OF o(3) sub, of 0] obtain displays'
    where run: "adjust_positions order 0 displays = Inr displays'"
      and len: "length displays' = length displays"
      and pos: "\<forall>k<length order. displays' ! (order ! k) =
        (displays ! (order ! k))\<lparr>x := 0 + sum_list (map (\<lambda>i. width (displays ! i)) (take k order)),
                                   y := 0\<rparr>"
    by blast
  have "virt_viewer_align_monitors_linear (Some displays) = Inr (Some displays')"
    using ne run by (simp add: virt_viewer_align_monitors_linear_def order_def [symmetric])
  then show ?thesis
    using o len pos by (intro exI [of _ order] exI [of _ displays']) simp
qed

text \<open>
  For the two rectangles at \<open>x = 100\<close> and \<open>x = 0\<close>: the one at 0 stays at 0, and the
  other follows at 80.
\<close>

lemma example_in_range: "in_range example_displays"
  by (simp add: in_range_def example_displays_def)

theorem align_monitors_linear_in_range_witness:
  "example_displays \<noteq> [] \<and> in_range example_displays \<and>
   virt_viewer_align_monitors_linear (Some example_displays) =
     Inr (Some [\<lparr>x = 80, y = 0, width = 50, height = 50\<rparr>,
                \<lparr>x = 0, y = 0, width = 80, height = 50\<rparr>]) \<and>
   (\<exists>order displays'.
      virt_viewer_align_monitors_linear (Some example_displays) = Inr (Some displays') \<and>
      set order = {0..<length example_displays} \<and> distinct order \<and>
      sorted_wrt (ordered_before example_displays) order \<and>
      length displays' = length example_displays \<and>
      (\<forall>k<length example_displays. displays' ! (order ! k) =
         (example_displays ! (order ! k))\<lparr>x := sum_list (map (\<lambda>i. width (example_displays ! i)) (take k order)),
                                            y := 0\<rparr>))"
proof -
  have ne: "example_displays \<noteq> []"
    by (simp add: example_displays_def)
  have run: "virt_viewer_align_monitors_linear (Some example_displays) =
     Inr (Some [\<lparr>x = 80, y = 0, width = 50, height = 50\<rparr>,
                \<lparr>x = 0, y = 0, width = 80, height = 50\<rparr>])"
    unfolding example_displays_def by code_simp
  show ?thesis
    using align_monitors_linear_in_range [OF ne example_in_range] ne example_in_range run
    by blast
qed

section \<open>Properties of the connection strings\<close>

text \<open>
  C7, as the claim states it, fails for the empty string: only \<^verbatim>\<open>NULL\<close> and a string
  equal to \<^verbatim>\<open>"xen"\<close> up to letter case are replaced by \<^verbatim>\<open>"xen:///"\<close>. The empty
  string is parsed as it is, its URI has no scheme, and \<^verbatim>\<open>*scheme\<close> is not written.
\<close>

theorem extract_host_empty_counterexample:
  "default_uristr (Some '''') = '''' \<and>
   virt_viewer_util_extract_host xmlParseURI_sample (Some '''') all_requested =
     (0, \<lparr>scheme = Some None, host = Some (Some ''localhost''),
          transport = Some None, user = Some None, port = Some 0\<rparr>)"
  by (simp add: default_uristr_def virt_viewer_util_extract_host_def xmlParseURI_sample_def
      empty_uri_def all_requested_def extract_host_field_def)

text \<open>
  C7, amended. For a \<^verbatim>\<open>NULL\<close> input and for an input equal to \<^verbatim>\<open>"xen"\<close> up to the
  case of its letters, the function parses \<^verbatim>\<open>"xen:///"\<close> instead; given that the parser
  finds the scheme \<^verbatim>\<open>xen\<close> and no server there, it returns 0 and yields the scheme
  \<^verbatim>\<open>xen\<close> and the host \<^verbatim>\<open>localhost\<close> in the scheme and host output parameters
  (where the caller passed them).
\<close>

theorem extract_host_default:
  assumes u: "uristr = None \<or> (\<exists>s. uristr = Some s \<and> g_ascii_strcasecmp s ''xen'' = 0)"
    and p: "xmlParseURI ''xen:///'' = Some uri"
    and s: "uri_scheme uri = Some ''xen''"
    and h: "uri_server uri = None"
    and q: "scheme out \<noteq> None \<and> host out \<noteq> None"
  shows "default_uristr uristr = ''xen:///'' \<and>
         fst (virt_viewer_util_extract_host xmlParseURI uristr out) = 0 \<and>
         scheme (snd (virt_viewer_util_extract_host xmlParseURI uristr out)) = Some (Some ''xen'') \<and>
         host (snd (virt_viewer_util_extract_host xmlParseURI uristr out)) = Some (Some ''localhost'')"
proof -
  have d: "default_uristr uristr = ''xen:///''"
    using u by (auto simp: default_uristr_def)
  have o: "strchr ''xen'' CHR ''+'' = None"
    by (simp add: strchr_def)
  show ?thesis
    using q by (auto simp: d virt_viewer_util_extract_host_def p s h o extract_host_field_def Let_def)
qed

text \<open>The input \<^verbatim>\<open>"xen"\<close> itself, with every field asked for.\<close>

theorem extract_host_default_witness:
  "g_ascii_strcasecmp ''xen'' ''xen'' = 0 \<and>
   default_uristr (Some ''xen'') = ''xen:///'' \<and>
   virt_viewer_util_extract_host xmlParseURI_sample (Some ''xen'') all_requested =
     (0, \<lparr>scheme = Some (Some ''xen''), host = Some (Some ''localhost''),
          transport = Some None, user = Some None, port = Some 0\<rparr>)"
proof -
  have c: "g_ascii_strcasecmp ''xen'' ''xen'' = 0"
    by (simp add: TOLOWER_def ISUPPER_def)
  have u: "Some ''xen'' = None \<or> (\<exists>s. Some ''xen'' = Some s \<and> g_ascii_strcasecmp s ''xen'' = 0)"
    using c by simp
  have p: "xmlParseURI_sample ''xen:///'' = Some xen_uri"
    by (simp add: xmlParseURI_sample_def)
  have s: "uri_scheme xen_uri = Some ''xen''" and h: "uri_server xen_uri = None"
    by (simp_all add: xen_uri_def)
  have q: "scheme all_requested \<noteq> None \<and> host all_requested \<noteq> None"
    by (simp add: all_requested_def)
  note t = extract_host_default
    [of "Some ''xen''" xmlParseURI_sample xen_uri all_requested, OF u p s h q]
  have r: "virt_viewer_util_extract_host xmlParseURI_sample (Some ''xen'') all_requested =
     (0, \<lparr>scheme = Some (Some ''xen''), host = Some (Some ''localhost''),
          transport = Some None, user = Some None, port = Some 0\<rparr>)"
    using t by (simp add: virt_viewer_util_extract_host_def p xen_uri_def all_requested_def
        extract_host_field_def strchr_def)
  show ?thesis
    using c t r by blast
qed

section \<open>Properties of the signal connections\<close>

subsection \<open>What a connection installs\<close>

lemmas connect_defs =
  virt_viewer_signal_connect_object_def whc_new_def called_def set_ctx_def
  g_cclosure_new_object_def g_cclosure_new_object_swap_def new_cclosure_def
  g_signal_connect_closure_def g_object_weak_ref_def g_closure_add_invalidate_notifier_def
  G_CONNECT_AFTER_def G_CONNECT_SWAPPED_def

lemma connected_glib_fields:
  "slices connected_glib 16 =
     Some \<lparr>ctx_instance = 1, ctx_observer = 2, ctx_closure = 17, ctx_handler_id = 1\<rparr>"
  "weak_refs connected_glib = [(1, Instance_destroyed_cb, 16), (2, Observer_destroyed_cb, 16)]"
  "notifiers connected_glib = [(17, 16)]"
  "handlers connected_glib =
     [\<lparr>h_instance = 1, h_id = 1, h_signal = ''notify'', h_closure = 17, h_after = False\<rparr>]"
  "trace connected_glib =
     [Slice_new 16, Cclosure_new_object 7 2 False, Signal_connect_closure 1 ''notify'' 17 False,
      Object_weak_ref 1 Instance_destroyed_cb 16, Object_weak_ref 2 Observer_destroyed_cb 16,
      Closure_add_invalidate_notifier 17 16]"
  by (simp_all add: connected_glib_def initial_glib_def connect_defs)

lemma armed_connected: "armed 16 connected_glib"
  by (simp add: armed_def connected_glib_fields)

lemma watches_connected:
  "watches_of 16 connected_glib =
     [Weak_watch 1 Instance_destroyed_cb 16, Weak_watch 2 Observer_destroyed_cb 16,
      Invalidate_watch 17 16]"
  by (simp add: watches_of_def connected_glib_fields)

text \<open>
  A connection that passes the five checks on an instance that has the signal leaves its
  registration armed, when no older watch points at or beyond the next free address and
  every handler id in use is below the next one.
\<close>

lemma connect_object_armed:
  assumes w: "\<forall>w\<in>set (weak_refs st). snd (snd w) < next_addr st"
    and n: "\<forall>n\<in>set (notifiers st). fst n < next_addr st \<and> snd n < next_addr st"
    and h: "\<forall>h\<in>set (handlers st). h_id h < next_handler st"
    and ok: "inst \<in> objects st" "gobject \<in> objects st" "c_handler \<noteq> 0"
      "connect_flags AND NOT (G_CONNECT_AFTER OR G_CONNECT_SWAPPED) = 0"
      "signal_valid st inst name"
  shows "armed (next_addr st)
           (snd (virt_viewer_signal_connect_object inst (Some name) c_handler gobject connect_flags st))"
proof -
  have fw: "filter (\<lambda>w. snd (snd w) = next_addr st) (weak_refs st) = []"
    using w by (auto simp: filter_empty_conv)
  have fn: "filter (\<lambda>n. snd n = next_addr st \<or> fst n = Suc (next_addr st)) (notifiers st) = []"
    using n by (auto simp: filter_empty_conv)
  have fh: "list_all (\<lambda>h. h_id h \<noteq> next_handler st) (handlers st)"
    using h by (auto simp: list_all_iff)
  then have fh': "list_all (\<lambda>h. h_instance h = inst \<and> h_id h = next_handler st \<longrightarrow> h_closure h = Suc (next_addr st)) (handlers st)"
    by (auto simp: list_all_iff)
  show ?thesis
    using ok fw fn fh' by (simp add: armed_def connect_defs Let_def)
qed

text \<open>The first connection in the state to start from, with \<^verbatim>\<open>G_CONNECT_AFTER\<close>.\<close>

theorem connect_object_armed_witness:
  "armed 16 (snd (virt_viewer_signal_connect_object 1 (Some ''notify'') 7 2 G_CONNECT_AFTER initial_glib)) \<and>
   fst (virt_viewer_signal_connect_object 1 (Some ''notify'') 7 2 G_CONNECT_AFTER initial_glib) = 1"
proof -
  have w: "\<forall>w\<in>set (weak_refs initial_glib). snd (snd w) < next_addr initial_glib"
    and n: "\<forall>n\<in>set (notifiers initial_glib). fst n < next_addr initial_glib \<and> snd n < next_addr initial_glib"
    and h: "\<forall>h\<in>set (handlers initial_glib). h_id h < next_handler initial_glib"
    and ok: "1 \<in> objects initial_glib" "2 \<in> objects initial_glib" "(7 :: gpointer) \<noteq> 0"
      "G_CONNECT_AFTER AND NOT (G_CONNECT_AFTER OR G_CONNECT_SWAPPED) = 0"
      "signal_valid initial_glib 1 ''notify''"
    by (simp_all add: initial_glib_def G_CONNECT_AFTER_def G_CONNECT_SWAPPED_def)
  have a: "next_addr initial_glib = 16"
    by (simp add: initial_glib_def)
  have r: "fst (virt_viewer_signal_connect_object 1 (Some ''notify'') 7 2 G_CONNECT_AFTER initial_glib) = 1"
    by (simp add: initial_glib_def connect_defs)
  show ?thesis
    using connect_object_armed [OF w n h ok] r by (simp add: a)
qed

subsection \<open>What a failed check leaves behind\<close>

text \<open>
  Whichever check fails, the call returns 0 and installs no handler, no weak reference and
  no notifier, but the context that was allocated before the checks stays allocated.
\<close>

lemma connect_object_failed_check:
  assumes "inst \<notin> objects st \<or> detailed_signal = None \<or> c_handler = 0 \<or> gobject \<notin> objects st \<or>
           connect_flags AND NOT (G_CONNECT_AFTER OR G_CONNECT_SWAPPED) \<noteq> 0"
  shows "fst (virt_viewer_signal_connect_object inst detailed_signal c_handler gobject connect_flags st) = 0 \<and>
         slices (snd (virt_viewer_signal_connect_object inst detailed_signal c_handler gobject connect_flags st)) =
           (slices st)(next_addr st \<mapsto>
              \<lparr>ctx_instance = inst, ctx_observer = gobject, ctx_closure = 0, ctx_handler_id = 0\<rparr>) \<and>
         handlers (snd (virt_viewer_signal_connect_object inst detailed_signal c_handler gobject connect_flags st)) = handlers st \<and>
         weak_refs (snd (virt_viewer_signal_connect_object inst detailed_signal c_handler gobject connect_flags st)) = weak_refs st \<and>
         notifiers (snd (virt_viewer_signal_connect_object inst detailed_signal c_handler gobject connect_flags st)) = notifiers st"
  using assms by (auto simp: virt_viewer_signal_connect_object_def whc_new_def called_def Let_def)

text \<open>A call without a signal name, in the state to start from.\<close>

theorem connect_object_failed_check_witness:
  "fst (virt_viewer_signal_connect_object 1 None 7 2 0 initial_glib) = 0 \<and>
   slices (snd (virt_viewer_signal_connect_object 1 None 7 2 0 initial_glib)) 16 =
     Some \<lparr>ctx_instance = 1, ctx_observer = 2, ctx_closure = 0, ctx_handler_id = 0\<rparr> \<and>
   handlers (snd (virt_viewer_signal_connect_object 1 None 7 2 0 initial_glib)) = [] \<and>
   weak_refs (snd (virt_viewer_signal_connect_object 1 None 7 2 0 initial_glib)) = [] \<and>
   notifiers (snd (virt_viewer_signal_connect_object 1 None 7 2 0 initial_glib)) = []"
proof -
  have "1 \<notin> objects initial_glib \<or> (None :: string option) = None \<or> (7 :: gpointer) = 0 \<or>
        2 \<notin> objects initial_glib \<or>
        (0 :: GConnectFlags) AND NOT (G_CONNECT_AFTER OR G_CONNECT_SWAPPED) \<noteq> 0"
    by simp
  from connect_object_failed_check [OF this] show ?thesis
    by (simp add: initial_glib_def)
qed

text \<open>
  C2. The claim is that a call that fails a check leaves nothing behind, no context record
  either. \<^verbatim>\<open>whc_new\<close> runs before the checks and no failing check frees its block: with
  a \<^verbatim>\<open>NULL\<close> callback the call returns 0 from the third check, and the context at
  address 16, which was free before, is still allocated and never freed.
\<close>

theorem connect_object_failed_check_leaks:
  "fst (virt_viewer_signal_connect_object 1 (Some ''notify'') 0 2 0 initial_glib) = 0 \<and>
   slices initial_glib 16 = None \<and>
   slices (snd (virt_viewer_signal_connect_object 1 (Some ''notify'') 0 2 0 initial_glib)) 16 =
     Some \<lparr>ctx_instance = 1, ctx_observer = 2, ctx_closure = 0, ctx_handler_id = 0\<rparr> \<and>
   trace (snd (virt_viewer_signal_connect_object 1 (Some ''notify'') 0 2 0 initial_glib)) =
     [Slice_new 16, Return_if_fail ''c_handler != NULL'']"
  by (simp add: virt_viewer_signal_connect_object_def whc_new_def called_def initial_glib_def)

text \<open>
  C4. A call whose flags have a bit outside \<^verbatim>\<open>G_CONNECT_AFTER | G_CONNECT_SWAPPED\<close>
  returns the handler id 0 from a failed check, straight after the allocation of the
  context: no closure is made and no handler is connected.
\<close>

theorem connect_object_rejects_flags:
  assumes "connect_flags AND NOT (G_CONNECT_AFTER OR G_CONNECT_SWAPPED) \<noteq> 0"
  shows "fst (virt_viewer_signal_connect_object inst detailed_signal c_handler gobject connect_flags st) = 0 \<and>
         handlers (snd (virt_viewer_signal_connect_object inst detailed_signal c_handler gobject connect_flags st)) = handlers st \<and>
         closures (snd (virt_viewer_signal_connect_object inst detailed_signal c_handler gobject connect_flags st)) = closures st \<and>
         (\<exists>check. trace (snd (virt_viewer_signal_connect_object inst detailed_signal c_handler gobject connect_flags st)) =
                     trace st @ [Slice_new (next_addr st), Return_if_fail check])"
  using assms by (simp add: virt_viewer_signal_connect_object_def whc_new_def called_def Let_def)

text \<open>The flag value 4 is such a value.\<close>

theorem connect_object_rejects_flags_witness:
  "(4 :: GConnectFlags) AND NOT (G_CONNECT_AFTER OR G_CONNECT_SWAPPED) \<noteq> 0 \<and>
   fst (virt_viewer_signal_connect_object 1 (Some ''notify'') 7 2 4 initial_glib) = 0 \<and>
   handlers (snd (virt_viewer_signal_connect_object 1 (Some ''notify'') 7 2 4 initial_glib)) = [] \<and>
   trace (snd (virt_viewer_signal_connect_object 1 (Some ''notify'') 7 2 4 initial_glib)) =
     [Slice_new 16, Return_if_fail ''connect_flags'']"
proof -
  have f: "(4 :: GConnectFlags) AND NOT (G_CONNECT_AFTER OR G_CONNECT_SWAPPED) \<noteq> 0"
    by (simp add: G_CONNECT_AFTER_def G_CONNECT_SWAPPED_def)
  have t: "trace (snd (virt_viewer_signal_connect_object 1 (Some ''notify'') 7 2 4 initial_glib)) =
     [Slice_new 16, Return_if_fail ''connect_flags'']"
    using f by (simp add: virt_viewer_signal_connect_object_def whc_new_def called_def initial_glib_def)
  have h: "handlers initial_glib = []"
    by (simp add: initial_glib_def)
  show ?thesis
    using connect_object_rejects_flags [OF f, of 1 "Some ''notify''" 7 2 initial_glib] f t h
    by simp
qed

subsection \<open>The three ways a registration ends\<close>

lemma released_not_installed:
  assumes "released ctxp st" and "watch_data w = ctxp"
  shows "\<not> installed w st"
proof (cases w)
  case (Weak_watch object notify data)
  have "\<forall>e\<in>set (weak_refs st). snd (snd e) \<noteq> ctxp"
    using assms(1) by (simp add: released_def filter_empty_conv)
  then show ?thesis
    using Weak_watch assms(2) by auto
next
  case (Invalidate_watch cl data)
  have "\<forall>e\<in>set (notifiers st). snd e \<noteq> ctxp"
    using assms(1) by (simp add: released_def filter_empty_conv)
  then show ?thesis
    using Invalidate_watch assms(2) by auto
qed

lemma armed_weak_refs:
  assumes "armed ctxp st" and "slices st ctxp = Some ctx"
  shows "filter (\<lambda>w. snd (snd w) = ctxp) (weak_refs st) =
           [(ctx_instance ctx, Instance_destroyed_cb, ctxp),
            (ctx_observer ctx, Observer_destroyed_cb, ctxp)]"
  using assms by (simp add: armed_def)

lemma armed_notifiers:
  assumes "armed ctxp st" and "slices st ctxp = Some ctx"
  shows "filter (\<lambda>n. snd n = ctxp \<or> fst n = ctx_closure ctx) (notifiers st) =
           [(ctx_closure ctx, ctxp)]"
  using assms by (simp add: armed_def)

lemma armed_handlers:
  assumes "armed ctxp st" and "slices st ctxp = Some ctx"
    and "h \<in> set (handlers st)" and "h_instance h = ctx_instance ctx"
    and "h_id h = ctx_handler_id ctx"
  shows "h_closure h = ctx_closure ctx"
  using assms by (auto simp: armed_def list_all_iff)

text \<open>The three watches of an armed registration are installed, so each can be delivered.\<close>

lemma armed_installed:
  assumes "armed ctxp st" and "w \<in> set (watches_of ctxp st)"
  shows "installed w st \<and> watch_data w = ctxp"
proof -
  from assms(1) obtain ctx where c: "slices st ctxp = Some ctx"
    by (auto simp: armed_def split: option.splits)
  have "(ctx_instance ctx, Instance_destroyed_cb, ctxp) \<in> set (filter (\<lambda>w. snd (snd w) = ctxp) (weak_refs st))"
    and "(ctx_observer ctx, Observer_destroyed_cb, ctxp) \<in> set (filter (\<lambda>w. snd (snd w) = ctxp) (weak_refs st))"
    and "(ctx_closure ctx, ctxp) \<in> set (filter (\<lambda>n. snd n = ctxp \<or> fst n = ctx_closure ctx) (notifiers st))"
    unfolding armed_weak_refs [OF assms(1) c] armed_notifiers [OF assms(1) c] by simp_all
  then show ?thesis
    using assms(2) c by (auto simp: watches_of_def)
qed

lemma weak_refs_cleared:
  assumes "filter P ws = [a, b]"
  shows "filter P (remove1 a (remove1 b ws)) = []"
    and "filter P (remove1 b (remove1 a ws)) = []"
  using assms by (simp_all add: filter_remove1)

lemma notifiers_cleared:
  assumes "filter (\<lambda>n. snd n = ctxp \<or> fst n = cl) ns = [(cl, ctxp)]"
  shows "filter (\<lambda>n. snd n = ctxp) (remove1 (cl, ctxp) ns) = []"
    and "filter (\<lambda>n. fst n = cl) (remove1 (cl, ctxp) ns) = []"
    and "filter (\<lambda>n. fst n \<noteq> cl) (remove1 (cl, ctxp) ns) = remove1 (cl, ctxp) ns"
proof -
  have e: "filter (\<lambda>n. snd n = ctxp \<or> fst n = cl) (remove1 (cl, ctxp) ns) = []"
    using assms by (simp add: filter_remove1)
  then have n: "\<forall>n\<in>set (remove1 (cl, ctxp) ns). snd n \<noteq> ctxp \<and> fst n \<noteq> cl"
    by (simp add: filter_empty_conv)
  show "filter (\<lambda>n. snd n = ctxp) (remove1 (cl, ctxp) ns) = []"
    using n by (simp add: filter_empty_conv)
  show "filter (\<lambda>n. fst n = cl) (remove1 (cl, ctxp) ns) = []"
    using n by (simp add: filter_empty_conv)
  show "filter (\<lambda>n. fst n \<noteq> cl) (remove1 (cl, ctxp) ns) = remove1 (cl, ctxp) ns"
    using n by (simp add: filter_id_conv)
qed

lemma fire_instance:
  assumes c: "slices st ctxp = Some ctx"
  shows "fire (Weak_watch (ctx_instance ctx) Instance_destroyed_cb ctxp) st =
           Some (st\<lparr>slices := (slices st)(ctxp := None),
                    weak_refs := remove1 (ctx_observer ctx, Observer_destroyed_cb, ctxp)
                                   (remove1 (ctx_instance ctx, Instance_destroyed_cb, ctxp) (weak_refs st)),
                    notifiers := remove1 (ctx_closure ctx, ctxp) (notifiers st),
                    trace := trace st @
                      [Object_weak_unref (ctx_observer ctx) Observer_destroyed_cb ctxp,
                       Closure_remove_invalidate_notifier (ctx_closure ctx) ctxp,
                       Slice_free ctxp]\<rparr>)"
  using c
  by (simp add: instance_destroyed_cb_def g_object_weak_unref_def
      g_closure_remove_invalidate_notifier_def whc_free_def called_def)

lemma fire_closure:
  assumes c: "slices st ctxp = Some ctx"
  shows "fire (Invalidate_watch (ctx_closure ctx) ctxp) st =
           Some (st\<lparr>slices := (slices st)(ctxp := None),
                    weak_refs := remove1 (ctx_observer ctx, Observer_destroyed_cb, ctxp)
                                   (remove1 (ctx_instance ctx, Instance_destroyed_cb, ctxp) (weak_refs st)),
                    notifiers := remove1 (ctx_closure ctx, ctxp) (notifiers st),
                    trace := trace st @
                      [Object_weak_unref (ctx_instance ctx) Instance_destroyed_cb ctxp,
                       Object_weak_unref (ctx_observer ctx) Observer_destroyed_cb ctxp,
                       Slice_free ctxp]\<rparr>)"
  using c
  by (simp add: closure_invalidated_cb_def g_object_weak_unref_def whc_free_def called_def)

lemma disconnect_without_notifier:
  assumes f: "filter (\<lambda>n. fst n = cl) (notifiers st) = []"
    and h: "\<forall>h\<in>set (handlers st). h_instance h = inst \<and> h_id h = hid \<longrightarrow> h_closure h = cl"
  shows "\<exists>st'. g_signal_handler_disconnect inst hid st = Some st' \<and>
           slices st' = slices st \<and> weak_refs st' = weak_refs st \<and>
           notifiers st' = notifiers st \<and>
           trace st' = trace st @ [Signal_handler_disconnect inst hid]"
proof (cases "find (\<lambda>h. h_instance h = inst \<and> h_id h = hid) (handlers st)")
  case None
  then show ?thesis
    by (simp add: g_signal_handler_disconnect_def called_def)
next
  case (Some h)
  then have "h \<in> set (handlers st)" and "h_instance h = inst \<and> h_id h = hid"
    by (auto simp: find_Some_iff)
  then have cl: "h_closure h = cl"
    using h by blast
  have k: "filter (\<lambda>n. fst n \<noteq> cl) (notifiers st) = notifiers st"
    using f by (simp add: filter_empty_conv filter_id_conv)
  show ?thesis
    using Some cl f k
    by (simp add: g_signal_handler_disconnect_def called_def g_closure_invalidate_def)
qed


lemma fire_observer:
  assumes a: "armed ctxp st" and c: "slices st ctxp = Some ctx"
  shows "\<exists>st'. fire (Weak_watch (ctx_observer ctx) Observer_destroyed_cb ctxp) st = Some st' \<and>
           slices st' = (slices st)(ctxp := None) \<and>
           weak_refs st' = remove1 (ctx_instance ctx, Instance_destroyed_cb, ctxp)
                             (remove1 (ctx_observer ctx, Observer_destroyed_cb, ctxp) (weak_refs st)) \<and>
           notifiers st' = remove1 (ctx_closure ctx, ctxp) (notifiers st) \<and>
           trace st' = trace st @
             [Closure_remove_invalidate_notifier (ctx_closure ctx) ctxp,
              Signal_handler_disconnect (ctx_instance ctx) (ctx_handler_id ctx),
              Object_weak_unref (ctx_instance ctx) Instance_destroyed_cb ctxp,
              Slice_free ctxp]"
proof -
  define st0 where
    "st0 = st\<lparr>weak_refs := remove1 (ctx_observer ctx, Observer_destroyed_cb, ctxp) (weak_refs st)\<rparr>"
  define st1 where "st1 = g_closure_remove_invalidate_notifier (ctx_closure ctx) ctxp st0"
  have n1: "notifiers st1 = remove1 (ctx_closure ctx, ctxp) (notifiers st)"
    and h1: "handlers st1 = handlers st"
    and s1: "slices st1 = slices st"
    and w1: "weak_refs st1 = remove1 (ctx_observer ctx, Observer_destroyed_cb, ctxp) (weak_refs st)"
    and t1: "trace st1 = trace st @ [Closure_remove_invalidate_notifier (ctx_closure ctx) ctxp]"
    by (simp_all add: st1_def st0_def g_closure_remove_invalidate_notifier_def called_def)
  have f: "filter (\<lambda>n. fst n = ctx_closure ctx) (notifiers st1) = []"
    unfolding n1 by (rule notifiers_cleared(2) [OF armed_notifiers [OF a c]])
  have h: "\<forall>h\<in>set (handlers st1). h_instance h = ctx_instance ctx \<and> h_id h = ctx_handler_id ctx
             \<longrightarrow> h_closure h = ctx_closure ctx"
    unfolding h1 using armed_handlers [OF a c] by blast
  from disconnect_without_notifier [OF f h] obtain st2
    where d: "g_signal_handler_disconnect (ctx_instance ctx) (ctx_handler_id ctx) st1 = Some st2"
      and s2: "slices st2 = slices st1" and w2: "weak_refs st2 = weak_refs st1"
      and n2: "notifiers st2 = notifiers st1"
      and t2: "trace st2 = trace st1 @ [Signal_handler_disconnect (ctx_instance ctx) (ctx_handler_id ctx)]"
    by blast
  define st3 where "st3 = g_object_weak_unref (ctx_instance ctx) Instance_destroyed_cb ctxp st2"
  have s3: "slices st3 = slices st" and n3: "notifiers st3 = remove1 (ctx_closure ctx, ctxp) (notifiers st)"
    and w3: "weak_refs st3 = remove1 (ctx_instance ctx, Instance_destroyed_cb, ctxp)
                               (remove1 (ctx_observer ctx, Observer_destroyed_cb, ctxp) (weak_refs st))"
    and t3: "trace st3 = trace st @
             [Closure_remove_invalidate_notifier (ctx_closure ctx) ctxp,
              Signal_handler_disconnect (ctx_instance ctx) (ctx_handler_id ctx),
              Object_weak_unref (ctx_instance ctx) Instance_destroyed_cb ctxp]"
    by (simp_all add: st3_def g_object_weak_unref_def called_def s2 s1 n2 n1 w2 w1 t2 t1)
  have s0: "slices st0 = slices st"
    by (simp add: st0_def)
  have "observer_destroyed_cb ctxp st0 = whc_free ctxp st3"
    by (simp only: observer_destroyed_cb_def s0 c option.case Let_def st1_def [symmetric] d
        st3_def [symmetric])
  then have run: "fire (Weak_watch (ctx_observer ctx) Observer_destroyed_cb ctxp) st = whc_free ctxp st3"
    by (simp add: st0_def)
  have "whc_free ctxp st3 =
          Some (called (Slice_free ctxp) (st3\<lparr>slices := (slices st3)(ctxp := None)\<rparr>))"
    using c by (simp add: whc_free_def s3)
  then show ?thesis
    using run by (simp add: called_def s3 n3 w3 t3)
qed

text \<open>
  C1. For an armed registration, whichever of its three watches is delivered first, the
  callback returns, the context is freed, and no watch that carries the context is
  installed afterwards, so neither of the other two callbacks can be delivered for it. The
  context is freed once more than before, that is exactly once by this delivery.
\<close>

theorem first_teardown_releases:
  assumes a: "armed ctxp st" and w: "w \<in> set (watches_of ctxp st)"
  shows "\<exists>st'. fire w st = Some st' \<and> slices st' ctxp = None \<and>
           (\<forall>w'. watch_data w' = ctxp \<longrightarrow> \<not> installed w' st') \<and>
           count_list (trace st') (Slice_free ctxp) = Suc (count_list (trace st) (Slice_free ctxp))"
proof -
  from a obtain ctx where c: "slices st ctxp = Some ctx"
    by (auto simp: armed_def split: option.splits)
  note wr = armed_weak_refs [OF a c]
  note ns = armed_notifiers [OF a c]
  have "\<exists>st'. fire w st = Some st' \<and> released ctxp st' \<and>
          count_list (trace st') (Slice_free ctxp) = Suc (count_list (trace st) (Slice_free ctxp))"
  proof -
    consider "w = Weak_watch (ctx_instance ctx) Instance_destroyed_cb ctxp"
      | "w = Weak_watch (ctx_observer ctx) Observer_destroyed_cb ctxp"
      | "w = Invalidate_watch (ctx_closure ctx) ctxp"
      using w c by (auto simp: watches_of_def)
    then show ?thesis
    proof cases
      case 1
      show ?thesis
        unfolding 1 fire_instance [OF c]
        by (simp add: released_def weak_refs_cleared(2) [OF wr] notifiers_cleared(1) [OF ns])
    next
      case 2
      from fire_observer [OF a c] obtain st'
        where "fire w st = Some st'" and "slices st' = (slices st)(ctxp := None)"
          and "weak_refs st' = remove1 (ctx_instance ctx, Instance_destroyed_cb, ctxp)
                 (remove1 (ctx_observer ctx, Observer_destroyed_cb, ctxp) (weak_refs st))"
          and "notifiers st' = remove1 (ctx_closure ctx, ctxp) (notifiers st)"
          and "trace st' = trace st @
             [Closure_remove_invalidate_notifier (ctx_closure ctx) ctxp,
              Signal_handler_disconnect (ctx_instance ctx) (ctx_handler_id ctx),
              Object_weak_unref (ctx_instance ctx) Instance_destroyed_cb ctxp,
              Slice_free ctxp]"
        unfolding 2 by blast
      then show ?thesis
        by (simp add: released_def weak_refs_cleared(1) [OF wr] notifiers_cleared(1) [OF ns])
    next
      case 3
      show ?thesis
        unfolding 3 fire_closure [OF c]
        by (simp add: released_def weak_refs_cleared(2) [OF wr] notifiers_cleared(1) [OF ns])
    qed
  qed
  then show ?thesis
    using released_not_installed by (metis released_def)
qed

text \<open>The registration of the connected state, ended by the destruction of the instance.\<close>

theorem first_teardown_releases_witness:
  "armed 16 connected_glib \<and>
   Weak_watch 1 Instance_destroyed_cb 16 \<in> set (watches_of 16 connected_glib) \<and>
   (\<exists>st'. fire (Weak_watch 1 Instance_destroyed_cb 16) connected_glib = Some st' \<and>
      slices st' 16 = None \<and>
      (\<forall>w'. watch_data w' = 16 \<longrightarrow> \<not> installed w' st') \<and>
      count_list (trace st') (Slice_free 16) =
        Suc (count_list (trace connected_glib) (Slice_free 16)))"
proof -
  have w: "Weak_watch 1 Instance_destroyed_cb 16 \<in> set (watches_of 16 connected_glib)"
    by (simp add: watches_connected)
  show ?thesis
    using first_teardown_releases [OF armed_connected w] armed_connected w by blast
qed

text \<open>
  The disconnection of a handler whose closure has no notifier left: the handler, if the
  instance has it, is taken off and its closure freed; nothing else changes.
\<close>

lemma disconnect_state:
  assumes f: "filter (\<lambda>n. fst n = cl) (notifiers st) = []"
    and h: "\<forall>h\<in>set (handlers st). h_instance h = inst \<and> h_id h = hid \<longrightarrow> h_closure h = cl"
  shows "g_signal_handler_disconnect inst hid st =
           Some (st\<lparr>closures := (case handler_of inst hid st of
                                    None \<Rightarrow> closures st
                                  | Some h \<Rightarrow> (closures st)(cl := None)),
                    handlers := (case handler_of inst hid st of
                                    None \<Rightarrow> handlers st
                                  | Some h \<Rightarrow> remove1 h (handlers st)),
                    trace := trace st @ [Signal_handler_disconnect inst hid]\<rparr>)"
proof (cases "find (\<lambda>h. h_instance h = inst \<and> h_id h = hid) (handlers st)")
  case None
  then show ?thesis
    by (simp add: g_signal_handler_disconnect_def called_def handler_of_def)
next
  case (Some h)
  then have "h \<in> set (handlers st)" and "h_instance h = inst \<and> h_id h = hid"
    by (auto simp: find_Some_iff)
  then have cl: "h_closure h = cl"
    using h by blast
  have k: "filter (\<lambda>n. fst n \<noteq> cl) (notifiers st) = notifiers st"
    using f by (simp add: filter_empty_conv filter_id_conv)
  show ?thesis
    using Some cl f k
    by (simp add: g_signal_handler_disconnect_def called_def g_closure_invalidate_def handler_of_def)
qed

text \<open>
  C3. When the watch on the observer is delivered for an armed registration, the callback
  returns, and the state after it is the state before it with exactly these changes: the
  invalidation notifier of the registration is off its closure, the handler with its id is
  off the instance (and its closure freed), the weak reference on the instance is off (the
  one on the observer went with the delivery), and the context is freed. The calls are
  made in this order: removal of the notifier, disconnection of the handler by its id,
  removal of the weak reference on the instance, release of the context.
\<close>

theorem observer_destroyed_order:
  assumes a: "armed ctxp st" and c: "slices st ctxp = Some ctx"
  shows "fire (Weak_watch (ctx_observer ctx) Observer_destroyed_cb ctxp) st =
           Some (st\<lparr>slices := (slices st)(ctxp := None),
                    closures := (case handler_of (ctx_instance ctx) (ctx_handler_id ctx) st of
                                    None \<Rightarrow> closures st
                                  | Some h \<Rightarrow> (closures st)(ctx_closure ctx := None)),
                    handlers := (case handler_of (ctx_instance ctx) (ctx_handler_id ctx) st of
                                    None \<Rightarrow> handlers st
                                  | Some h \<Rightarrow> remove1 h (handlers st)),
                    weak_refs := remove1 (ctx_instance ctx, Instance_destroyed_cb, ctxp)
                                   (remove1 (ctx_observer ctx, Observer_destroyed_cb, ctxp) (weak_refs st)),
                    notifiers := remove1 (ctx_closure ctx, ctxp) (notifiers st),
                    trace := trace st @
                      [Closure_remove_invalidate_notifier (ctx_closure ctx) ctxp,
                       Signal_handler_disconnect (ctx_instance ctx) (ctx_handler_id ctx),
                       Object_weak_unref (ctx_instance ctx) Instance_destroyed_cb ctxp,
                       Slice_free ctxp]\<rparr>)"
proof -
  define st1 where
    "st1 = g_closure_remove_invalidate_notifier (ctx_closure ctx) ctxp
             (st\<lparr>weak_refs := remove1 (ctx_observer ctx, Observer_destroyed_cb, ctxp) (weak_refs st)\<rparr>)"
  have n1: "notifiers st1 = remove1 (ctx_closure ctx, ctxp) (notifiers st)"
    and h1: "handlers st1 = handlers st"
    by (simp_all add: st1_def g_closure_remove_invalidate_notifier_def called_def)
  have f: "filter (\<lambda>n. fst n = ctx_closure ctx) (notifiers st1) = []"
    unfolding n1 by (rule notifiers_cleared(2) [OF armed_notifiers [OF a c]])
  have h: "\<forall>h\<in>set (handlers st1). h_instance h = ctx_instance ctx \<and> h_id h = ctx_handler_id ctx
             \<longrightarrow> h_closure h = ctx_closure ctx"
    unfolding h1 using armed_handlers [OF a c] by blast
  have ho: "handler_of (ctx_instance ctx) (ctx_handler_id ctx) st1 =
            handler_of (ctx_instance ctx) (ctx_handler_id ctx) st"
    by (simp add: handler_of_def h1)
  note d = disconnect_state [OF f h, unfolded ho]
  have c1: "closures st1 = closures st"
    by (simp add: st1_def g_closure_remove_invalidate_notifier_def called_def)
  show ?thesis
  proof (cases "handler_of (ctx_instance ctx) (ctx_handler_id ctx) st")
    case None
    have "observer_destroyed_cb ctxp
            (st\<lparr>weak_refs := remove1 (ctx_observer ctx, Observer_destroyed_cb, ctxp) (weak_refs st)\<rparr>) =
          whc_free ctxp (g_object_weak_unref (ctx_instance ctx) Instance_destroyed_cb ctxp
            (st1\<lparr>trace := trace st1 @
                    [Signal_handler_disconnect (ctx_instance ctx) (ctx_handler_id ctx)]\<rparr>))"
      using c by (simp add: observer_destroyed_cb_def st1_def [symmetric] d None)
    then show ?thesis
      using c
      by (simp add: None st1_def whc_free_def g_object_weak_unref_def
          g_closure_remove_invalidate_notifier_def called_def)
  next
    case (Some h)
    have "observer_destroyed_cb ctxp
            (st\<lparr>weak_refs := remove1 (ctx_observer ctx, Observer_destroyed_cb, ctxp) (weak_refs st)\<rparr>) =
          whc_free ctxp (g_object_weak_unref (ctx_instance ctx) Instance_destroyed_cb ctxp
            (st1\<lparr>closures := (closures st)(ctx_closure ctx := None),
                  handlers := remove1 h (handlers st),
                  trace := trace st1 @
                    [Signal_handler_disconnect (ctx_instance ctx) (ctx_handler_id ctx)]\<rparr>))"
      using c by (simp add: observer_destroyed_cb_def st1_def [symmetric] d Some h1 c1)
    then show ?thesis
      using c
      by (simp add: Some st1_def whc_free_def g_object_weak_unref_def
          g_closure_remove_invalidate_notifier_def called_def)
  qed
qed

text \<open>
  The registration of the connected state, ended by the destruction of the observer: no
  handler, no watch and no context is left.
\<close>

theorem observer_destroyed_order_witness:
  "armed 16 connected_glib \<and>
   fire (Weak_watch 2 Observer_destroyed_cb 16) connected_glib =
     Some (connected_glib\<lparr>slices := (slices connected_glib)(16 := None),
             closures := (closures connected_glib)(17 := None),
             handlers := [], weak_refs := [], notifiers := [],
             trace := trace connected_glib @
               [Closure_remove_invalidate_notifier 17 16, Signal_handler_disconnect 1 1,
                Object_weak_unref 1 Instance_destroyed_cb 16, Slice_free 16]\<rparr>)"
proof -
  have ho: "handler_of 1 1 connected_glib =
     Some \<lparr>h_instance = 1, h_id = 1, h_signal = ''notify'', h_closure = 17, h_after = False\<rparr>"
    by (simp add: handler_of_def connected_glib_fields)
  show ?thesis
    using observer_destroyed_order [OF armed_connected connected_glib_fields(1)] armed_connected
    by (simp add: ho [simplified] connected_glib_fields)
qed

end
